theory Spec2Isabelle
  imports Main "HOL-Library.Char_ord" "HOL-Library.List_Lexorder"
begin

section \<open>A model of \<open>microfaas/buildah.py\<close>\<close>

text \<open>
  The module drives the external tool \<open>buildah\<close> and keeps, for every container, a live
  configuration next to a snapshot of the configuration last sent to the tool.

  Conventions of the model:
  \<^item> a Python \<open>str\<close> is a \<open>string\<close>; a character stands for the code point of the same
    number, so the model covers the strings whose code points are below 256;
  \<^item> a \<open>dict\<close> from \<open>str\<close> to \<open>str\<close> is a map, a \<open>set\<close> of \<open>str\<close> is a \<open>string set\<close>;
    Python's dicts and sets are finite, which theorems assume where they need it;
  \<^item> the order in which a \<open>for\<close> loop visits a Python set is not fixed by the language;
    it is a parameter \<open>it\<close> of the model, constrained by \<open>iteration_order\<close>;
  \<^item> every exception is a value of type \<open>error\<close>, and a function that can raise returns
    \<open>error + 'a\<close>;
  \<^item> the external tool is a parameter: a function from the commands run so far and the
    command being run to an exit code and the text written to standard output. The
    commands run are recorded in a trace, which every effectful function threads through.
\<close>

subsection \<open>Exceptions\<close>

datatype error =
    CalledProcessError int "string list" string
  | ImageNotFoundError string
  | AttributeError string
  | TypeError string
  | ValueError string
  | KeyError string
  | AssertionError
  | CancelledError
  | RuntimeError string

type_synonym 'a dict = "string \<rightharpoonup> 'a"

definition iteration_order :: "(string set \<Rightarrow> string list) \<Rightarrow> bool" where
  "iteration_order it \<longleftrightarrow> (\<forall>S. finite S \<longrightarrow> set (it S) = S \<and> distinct (it S))"

subsection \<open>\<open>_dict_diff\<close>\<close>

text \<open>
  The loop \<open>for key in newkeys & oldkeys\<close>: a key whose two values differ joins \<open>changed\<close>.
  A subscript on a missing key raises \<open>KeyError\<close>.
\<close>

fun changed_loop :: "string dict \<Rightarrow> string dict \<Rightarrow> string list \<Rightarrow> string set \<Rightarrow> error + string set" where
  "changed_loop old new [] changed = Inr changed"
| "changed_loop old new (key # keys) changed =
     (case new key of
        None \<Rightarrow> Inl (KeyError key)
      | Some nv \<Rightarrow>
          (case old key of
             None \<Rightarrow> Inl (KeyError key)
           | Some ov \<Rightarrow>
               changed_loop old new keys (if nv \<noteq> ov then insert key changed else changed)))"

text \<open>
  The \<open>assert len(changed & deleted) == 0\<close> is the test that the intersection is empty;
  its failure is the error \<open>AssertionError\<close>.
\<close>

definition dict_diff ::
  "(string set \<Rightarrow> string list) \<Rightarrow> string dict \<Rightarrow> string dict \<Rightarrow> error + (string set \<times> string set)" where
  "dict_diff it old new =
     (let oldkeys = dom old;
          newkeys = dom new;
          changed = newkeys - oldkeys;
          deleted = oldkeys - newkeys
      in case changed_loop old new (it (newkeys \<inter> oldkeys)) changed of
           Inl e \<Rightarrow> Inl e
         | Inr changed' \<Rightarrow>
             if changed' \<inter> deleted = {} then Inr (changed', deleted) else Inl AssertionError)"

subsection \<open>Strings\<close>

text \<open>\<open>sep.join(items)\<close>.\<close>

fun join :: "string \<Rightarrow> string list \<Rightarrow> string" where
  "join sep [] = []"
| "join sep [x] = x"
| "join sep (x # y # ys) = x @ sep @ join sep (y # ys)"

text \<open>
  \<open>_join_shellwords\<close>: every item between two single quotes (the character \<open>0x27\<close>),
  the items joined by one space. The source leaves a quote inside an item as it is
  (its \<open>FIXME\<close>).
\<close>

definition join_shellwords :: "string list \<Rightarrow> string" where
  "join_shellwords seq = join '' '' (map (\<lambda>s. [CHR 0x27] @ s @ [CHR 0x27]) seq)"

text \<open>
  \<open>json.dumps\<close> on a list of strings, with the defaults of the standard library
  (\<open>ensure_ascii\<close>, the separator \<open>", "\<close>): a string is written between double quotes;
  the double quote and the backslash are escaped by a backslash, the control characters
  backspace, form feed, newline, carriage return and tab by their letter, and every other
  character outside the range from space to tilde as \<open>\u00XX\<close>, in lower-case
  hexadecimal.
\<close>

definition hex_digit :: "nat \<Rightarrow> char" where
  "hex_digit n = ''0123456789abcdef'' ! (n mod 16)"

definition json_escape :: "char \<Rightarrow> string" where
  "json_escape c =
     (if c = CHR 0x22 then [CHR 0x5C, CHR 0x22]
      else if c = CHR 0x5C then [CHR 0x5C, CHR 0x5C]
      else if c = CHR 0x08 then [CHR 0x5C, CHR ''b'']
      else if c = CHR 0x0C then [CHR 0x5C, CHR ''f'']
      else if c = CHR 0x0A then [CHR 0x5C, CHR ''n'']
      else if c = CHR 0x0D then [CHR 0x5C, CHR ''r'']
      else if c = CHR 0x09 then [CHR 0x5C, CHR ''t'']
      else if (of_char c :: nat) < 0x20 \<or> 0x7E < (of_char c :: nat)
        then [CHR 0x5C, CHR ''u'', CHR ''0'', CHR ''0'',
              hex_digit (of_char c div 16), hex_digit (of_char c mod 16)]
      else [c])"

definition json_dumps_str :: "string \<Rightarrow> string" where
  "json_dumps_str s = [CHR 0x22] @ concat (map json_escape s) @ [CHR 0x22]"

definition json_dumps :: "string list \<Rightarrow> string" where
  "json_dumps xs = ''['' @ join '', '' (map json_dumps_str xs) @ '']''"

text \<open>
  \<open>item.split('=', 1)\<close>: at most one split, at the first separator; a string without the
  separator comes back whole, as the only element.
\<close>

definition split1 :: "char \<Rightarrow> string \<Rightarrow> string list" where
  "split1 sep s =
     (if sep \<in> set s
      then [takeWhile (\<lambda>c. c \<noteq> sep) s, tl (dropWhile (\<lambda>c. c \<noteq> sep) s)]
      else [s])"

text \<open>
  \<open>str.strip()\<close> removes the white space at both ends; below code point 256 the white
  space characters of \<open>str.isspace\<close> are the ones listed.
\<close>

definition py_isspace :: "char \<Rightarrow> bool" where
  "py_isspace c \<longleftrightarrow> (of_char c :: nat) \<in> {9, 10, 11, 12, 13, 28, 29, 30, 31, 32, 133, 160}"

definition strip :: "string \<Rightarrow> string" where
  "strip s = rev (dropWhile py_isspace (rev (dropWhile py_isspace s)))"

subsection \<open>The container object\<close>

text \<open>
  \<open>_snapshot\<close> is \<open>copy.deepcopy(vars(self))\<close>: a copy of every attribute the object has
  when the snapshot is taken, and from the second snapshot on the previous snapshot is
  one of them.
\<close>

datatype snapshot = Snapshot
  (s_id: string)
  (s_environ: "string dict")
  (s_command: "string list")
  (s_entrypoint: "string list")
  (s_labels: "string dict")
  (s_volumes: "string set")
  (s_workdir: string)
  (s_snapshot: "snapshot option")

text \<open>
  The attributes of a \<open>Container\<close>. \<open>c_id\<close> is \<open>_id\<close>; \<open>snapshot\<close> is \<open>None\<close> as long as the
  object has no attribute \<open>_snapshot\<close>.
\<close>

record container =
  c_id :: string
  environ :: "string dict"
  command :: "string list"
  entrypoint :: "string list"
  labels :: "string dict"
  volumes :: "string set"
  workdir :: string
  snapshot :: "snapshot option"

text \<open>
  The object right after \<open>cls.__new__(cls)\<close> and the assignment of \<open>_id\<close>: it has no
  \<open>_snapshot\<close>, and no configuration attribute is set. The model gives the unset
  attributes empty values; the source reads none of them before \<open>_init_config\<close> has
  assigned it.
\<close>

definition new_container :: "string \<Rightarrow> container" where
  "new_container ident =
     \<lparr>c_id = ident, environ = Map.empty, command = [], entrypoint = [], labels = Map.empty,
      volumes = {}, workdir = [], snapshot = None\<rparr>"

definition snapshot_config :: "container \<Rightarrow> container" where
  "snapshot_config c =
     c\<lparr>snapshot := Some (Snapshot (c_id c) (environ c) (command c) (entrypoint c)
                           (labels c) (volumes c) (workdir c) (snapshot c))\<rparr>"

subsection \<open>\<open>_produce_config_args\<close>\<close>

text \<open>The four loops, each appending one flag and its value per element.\<close>

fun env_add_loop :: "string dict \<Rightarrow> string list \<Rightarrow> string list \<Rightarrow> error + string list" where
  "env_add_loop env [] args = Inr args"
| "env_add_loop env (key # keys) args =
     (case env key of
        None \<Rightarrow> Inl (KeyError key)
      | Some v \<Rightarrow> env_add_loop env keys (args @ [''--env'', key @ ''='' @ v]))"

fun env_del_loop :: "string list \<Rightarrow> string list \<Rightarrow> string list" where
  "env_del_loop [] args = args"
| "env_del_loop (key # keys) args = env_del_loop keys (args @ [''--env'', key @ ''-''])"

fun vol_add_loop :: "string list \<Rightarrow> string list \<Rightarrow> string list" where
  "vol_add_loop [] args = args"
| "vol_add_loop (v # vs) args = vol_add_loop vs (args @ [''--volume'', v])"

fun vol_del_loop :: "string list \<Rightarrow> string list \<Rightarrow> string list" where
  "vol_del_loop [] args = args"
| "vol_del_loop (v # vs) args = vol_del_loop vs (args @ [''--volume'', v @ ''-''])"

text \<open>
  Reading \<open>self._snapshot\<close> on an object without that attribute raises
  \<open>AttributeError\<close>. The successive values of \<open>args\<close> are numbered.
\<close>

definition produce_config_args :: "(string set \<Rightarrow> string list) \<Rightarrow> container \<Rightarrow> error + string list" where
  "produce_config_args it c =
     (case snapshot c of
        None \<Rightarrow> Inl (AttributeError ''_snapshot'')
      | Some snap \<Rightarrow>
          (let args0 = [];
               args1 = (if command c \<noteq> s_command snap
                        then args0 @ [''--cmd'', join_shellwords (command c)] else args0);
               args2 = (if entrypoint c \<noteq> s_entrypoint snap
                        then args1 @ [''--entrypoint'', json_dumps (entrypoint c)] else args1);
               args3 = (if workdir c \<noteq> s_workdir snap
                        then args2 @ [''--workingdir'', workdir c] else args2)
           in case dict_diff it (s_environ snap) (environ c) of
                Inl e \<Rightarrow> Inl e
              | Inr (env_add, env_del) \<Rightarrow>
                  (case env_add_loop (environ c) (it env_add) args3 of
                     Inl e \<Rightarrow> Inl e
                   | Inr args4 \<Rightarrow>
                       (let args5 = env_del_loop (it env_del) args4;
                            vol_add = volumes c - s_volumes snap;
                            vol_del = s_volumes snap - volumes c;
                            args6 = vol_add_loop (it vol_add) args5;
                            args7 = vol_del_loop (it vol_del) args6
                        in Inr args7))))"

subsection \<open>Running the external tool\<close>

text \<open>
  A trace lists the argument vectors run so far, oldest first. The tool answers an
  argument vector, given the trace before it, with an exit code and its standard output.
\<close>

type_synonym trace = "string list list"

type_synonym tool = "trace \<Rightarrow> string list \<Rightarrow> int \<times> string"

text \<open>
  \<open>_buildah_out\<close>: runs \<open>buildah\<close> with the arguments; a nonzero exit code raises
  \<open>CalledProcessError\<close> with the code, the argument vector and the output.
\<close>

definition buildah_out :: "tool \<Rightarrow> string list \<Rightarrow> trace \<Rightarrow> (error + string) \<times> trace" where
  "buildah_out tool cmd tr =
     (let argv = ''buildah'' # cmd;
          returncode = fst (tool tr argv);
          stdout = snd (tool tr argv);
          tr' = tr @ [argv]
      in if returncode \<noteq> 0
         then (Inl (CalledProcessError returncode argv stdout), tr')
         else (Inr stdout, tr'))"

subsection \<open>\<open>_commit_config\<close>\<close>

text \<open>
  The object is mutated in place, so the result carries the container next to the
  trace: after an exception the caller still holds the object, in the state the
  exception left it in.
\<close>

definition commit_config ::
  "tool \<Rightarrow> (string set \<Rightarrow> string list) \<Rightarrow> container \<Rightarrow> trace \<Rightarrow> (error + unit) \<times> container \<times> trace" where
  "commit_config tool it c tr =
     (case snapshot c of
        None \<Rightarrow> (Inr (), c, tr)
      | Some _ \<Rightarrow>
          (case produce_config_args it c of
             Inl e \<Rightarrow> (Inl e, c, tr)
           | Inr args \<Rightarrow>
               if args \<noteq> [] then
                 (case buildah_out tool (''config'' # args @ [c_id c]) tr of
                    (Inl e, tr') \<Rightarrow> (Inl e, c, tr')
                  | (Inr _, tr') \<Rightarrow> (Inr (), snapshot_config c, tr'))
               else (Inr (), c, tr)))"

subsection \<open>\<open>Container.inspect\<close> and \<open>_init_config\<close>\<close>

text \<open>
  \<open>json.loads\<close> belongs to the standard library; it is a parameter of the model, one per
  shape of document read. What it returns is typed after the documents of the tool: a
  member of a JSON object is absent, \<open>null\<close>, or has a value.
\<close>

datatype 'a member = Absent | Null | Value 'a

record oci_config =
  Env :: "string list member"
  Cmd :: "string list member"
  Entrypoint :: "string list member"
  Labels :: "string dict member"
  Volumes :: "unit dict member"
  WorkingDir :: "string member"

record kinda_config =
  config :: "oci_config member"

record inspect_info =
  Config :: "string member"

definition inspect ::
  "tool \<Rightarrow> (string set \<Rightarrow> string list) \<Rightarrow> (string \<Rightarrow> error + 'j) \<Rightarrow> container \<Rightarrow> trace
     \<Rightarrow> (error + 'j) \<times> container \<times> trace" where
  "inspect tool it loads c tr =
     (case commit_config tool it c tr of
        (Inl e, c', tr') \<Rightarrow> (Inl e, c', tr')
      | (Inr _, c', tr') \<Rightarrow>
          (case buildah_out tool [''inspect'', ''--type'', ''container'', c_id c'] tr' of
             (Inl e, tr'') \<Rightarrow> (Inl e, c', tr'')
           | (Inr stdout, tr'') \<Rightarrow>
               (case loads stdout of
                  Inl e \<Rightarrow> (Inl e, c', tr'')
                | Inr info \<Rightarrow> (Inr info, c', tr''))))"

text \<open>\<open>config = {}\<close>: no member at all.\<close>

definition empty_config :: oci_config where
  "empty_config =
     \<lparr>Env = Absent, Cmd = Absent, Entrypoint = Absent, Labels = Absent, Volumes = Absent,
      WorkingDir = Absent\<rparr>"

text \<open>
  Lines 125 to 129. \<open>info['Config']\<close> raises \<open>KeyError\<close> on an absent member and is false
  for \<open>null\<close> and for the empty string; \<open>kinda_config['config']\<close> raises \<open>KeyError\<close> on an
  absent member, and a \<open>null\<close> there makes the first \<open>config.get\<close> raise
  \<open>AttributeError\<close>.
\<close>

definition config_of :: "(string \<Rightarrow> error + kinda_config) \<Rightarrow> inspect_info \<Rightarrow> error + oci_config" where
  "config_of loads info =
     (case Config info of
        Absent \<Rightarrow> Inl (KeyError ''Config'')
      | Null \<Rightarrow> Inr empty_config
      | Value s \<Rightarrow>
          if s \<noteq> [] then
            (case loads s of
               Inl e \<Rightarrow> Inl e
             | Inr kinda \<Rightarrow>
                 (case config kinda of
                    Absent \<Rightarrow> Inl (KeyError ''config'')
                  | Null \<Rightarrow> Inl (AttributeError ''get'')
                  | Value cfg \<Rightarrow> Inr cfg))
          else Inr empty_config)"

text \<open>
  \<open>config.get(key) or default\<close>: the member's value when it is there and true, the
  default otherwise (\<open>get\<close> is \<open>None\<close> for an absent member as for \<open>null\<close>).
\<close>

fun get_or :: "('a \<Rightarrow> bool) \<Rightarrow> 'a member \<Rightarrow> 'a \<Rightarrow> 'a" where
  "get_or truthy (Value v) d = (if truthy v then v else d)"
| "get_or truthy Absent d = d"
| "get_or truthy Null d = d"

text \<open>
  \<open>dict(pairs)\<close>: every element needs exactly two items, or \<open>ValueError\<close> is raised; a
  later pair overwrites an earlier one with the same key.
\<close>

fun dict_of :: "string list list \<Rightarrow> string dict \<Rightarrow> error + string dict" where
  "dict_of [] d = Inr d"
| "dict_of (p # ps) d =
     (case p of
        [k, v] \<Rightarrow> dict_of ps (d(k \<mapsto> v))
      | _ \<Rightarrow> Inl (ValueError ''dictionary update sequence element has not length 2''))"

definition init_config ::
  "tool \<Rightarrow> (string set \<Rightarrow> string list) \<Rightarrow> (string \<Rightarrow> error + inspect_info)
     \<Rightarrow> (string \<Rightarrow> error + kinda_config) \<Rightarrow> container \<Rightarrow> trace
     \<Rightarrow> (error + unit) \<times> container \<times> trace" where
  "init_config tool it loads_info loads_config c tr =
     (case inspect tool it loads_info c tr of
        (Inl e, c1, tr1) \<Rightarrow> (Inl e, c1, tr1)
      | (Inr info, c1, tr1) \<Rightarrow>
          (case config_of loads_config info of
             Inl e \<Rightarrow> (Inl e, c1, tr1)
           | Inr cfg \<Rightarrow>
               (case dict_of (map (split1 CHR ''='') (get_or (\<lambda>xs. xs \<noteq> []) (Env cfg) [])) Map.empty of
                  Inl e \<Rightarrow> (Inl e, c1, tr1)
                | Inr env \<Rightarrow>
                    (Inr (),
                     snapshot_config
                       (c1\<lparr>environ := env,
                           command := get_or (\<lambda>xs. xs \<noteq> []) (Cmd cfg) [],
                           entrypoint := get_or (\<lambda>xs. xs \<noteq> []) (Entrypoint cfg) [],
                           labels := get_or (\<lambda>m. m \<noteq> Map.empty) (Labels cfg) Map.empty,
                           volumes := (case Volumes cfg of
                                         Value m \<Rightarrow> if m \<noteq> Map.empty then dom m else {}
                                       | _ \<Rightarrow> {}),
                           workdir := get_or (\<lambda>s. s \<noteq> []) (WorkingDir cfg) []\<rparr>),
                     tr1))))"

subsection \<open>\<open>Container.mount\<close>\<close>

text \<open>
  The function is a generator under \<open>contextlib.asynccontextmanager\<close>: entering the
  scope runs it up to the \<open>yield\<close>, the body of the \<open>async with\<close> runs with the yielded
  path, and leaving the scope resumes the generator. When the body ends normally the
  generator runs on, through \<open>umount\<close>. When the body ends in an exception (an error, or
  the \<open>CancelledError\<close> of a cancellation) the exception is raised inside the generator
  at the \<open>yield\<close>; no \<open>try\<close> surrounds the \<open>yield\<close>, so the exception leaves the
  generator at once and the statement after the \<open>yield\<close> is not run.

  The body of the scope is any function from the path and the trace to an outcome and a
  trace.
\<close>

definition mount ::
  "tool \<Rightarrow> container \<Rightarrow> (string \<Rightarrow> trace \<Rightarrow> (error + 'a) \<times> trace) \<Rightarrow> trace \<Rightarrow> (error + 'a) \<times> trace" where
  "mount tool c body tr =
     (case buildah_out tool [''mount'', c_id c] tr of
        (Inl e, tr1) \<Rightarrow> (Inl e, tr1)
      | (Inr stdout, tr1) \<Rightarrow>
          (let path = strip stdout in
           case body path tr1 of
             (Inl e, tr2) \<Rightarrow> (Inl e, tr2)
           | (Inr r, tr2) \<Rightarrow>
               (case buildah_out tool [''umount'', c_id c] tr2 of
                  (Inl e, tr3) \<Rightarrow> (Inl e, tr3)
                | (Inr _, tr3) \<Rightarrow> (Inr r, tr3))))"

subsection \<open>Images\<close>

datatype image = Image (i_id: string)

definition from_id_only :: "string \<Rightarrow> image" where
  "from_id_only ident = Image ident"

text \<open>
  \<open>Image.list\<close> is an \<open>async def\<close> with a \<open>yield\<close>: calling it runs nothing and returns an
  asynchronous generator, which holds the body for a later \<open>async for\<close>. A plain \<open>for\<close>
  (or a generator expression) asks its operand for an iterator first, and an asynchronous
  generator has none: \<open>TypeError\<close>.
\<close>

datatype 'a iterable =
    Sequence "'a list"
  | AsyncGenerator "trace \<Rightarrow> (error + 'a list) \<times> trace"

definition py_iter :: "'a iterable \<Rightarrow> error + 'a list" where
  "py_iter x =
     (case x of
        Sequence xs \<Rightarrow> Inr xs
      | AsyncGenerator _ \<Rightarrow> Inl (TypeError ''async_generator object is not iterable''))"

definition list_images ::
  "tool \<Rightarrow> (string \<Rightarrow> error + string dict list) \<Rightarrow> string option \<Rightarrow> bool \<Rightarrow> string dict iterable" where
  "list_images tool loads name all =
     AsyncGenerator (\<lambda>tr.
       let cmd0 = [''images'', ''--json''];
           cmd1 = (if all then cmd0 @ [''--all''] else cmd0);
           cmd2 = (case name of
                     Some n \<Rightarrow> if n \<noteq> [] then cmd1 @ [n] else cmd1
                   | None \<Rightarrow> cmd1)
       in case buildah_out tool cmd2 tr of
            (Inl e, tr') \<Rightarrow> (Inl e, tr')
          | (Inr stdout, tr') \<Rightarrow> (loads stdout, tr'))"

text \<open>
  The name \<open>subprocess\<close> of the module is bound by \<open>from asyncio import subprocess\<close>
  (line 5), so \<open>subprocess.CalledProcessError\<close> in an \<open>except\<close> clause is an attribute of
  the module \<open>asyncio.subprocess\<close>. These are the names that module has; a lookup of
  any other name raises \<open>AttributeError\<close>. (The class the source imports at line 12,
  \<open>from subprocess import CalledProcessError\<close>, is bound to the bare name
  \<open>CalledProcessError\<close>, which the two \<open>except\<close> clauses do not use.)
\<close>

definition asyncio_subprocess_names :: "string list" where
  "asyncio_subprocess_names =
     [''DEVNULL'', ''PIPE'', ''Process'', ''STDOUT'', ''SubprocessStreamProtocol'',
      ''create_subprocess_exec'', ''create_subprocess_shell'', ''events'', ''logger'',
      ''protocols'', ''streams'', ''subprocess'', ''tasks'']"

definition subprocess_getattr :: "string \<Rightarrow> error + string" where
  "subprocess_getattr name =
     (if name \<in> set asyncio_subprocess_names then Inr name
      else Inl (AttributeError (''module asyncio.subprocess has no attribute '' @ name)))"

fun class_name :: "error \<Rightarrow> string" where
  "class_name (CalledProcessError _ _ _) = ''CalledProcessError''"
| "class_name (ImageNotFoundError _) = ''ImageNotFoundError''"
| "class_name (AttributeError _) = ''AttributeError''"
| "class_name (TypeError _) = ''TypeError''"
| "class_name (ValueError _) = ''ValueError''"
| "class_name (KeyError _) = ''KeyError''"
| "class_name AssertionError = ''AssertionError''"
| "class_name CancelledError = ''CancelledError''"
| "class_name (RuntimeError _) = ''RuntimeError''"

text \<open>
  \<open>except subprocess.CalledProcessError as exc: raise ImageNotFoundError(...) from exc\<close>,
  for an exception \<open>exc\<close> raised in the \<open>try\<close> block. The class expression of the clause
  is evaluated when the exception reaches the clause; if that evaluation raises, its
  exception is the one that propagates. Otherwise a matching exception is replaced by
  \<open>ImageNotFoundError\<close> and any other propagates unchanged.
\<close>

definition pull_failed :: "string \<Rightarrow> error \<Rightarrow> error" where
  "pull_failed name exc =
     (case subprocess_getattr ''CalledProcessError'' of
        Inl e \<Rightarrow> e
      | Inr cls \<Rightarrow>
          if class_name exc = cls then ImageNotFoundError (''Could not find image '' @ name)
          else exc)"

text \<open>The generator expression under \<open>any\<close>: \<open>img['id'] == id\<close>, image by image.\<close>

fun any_id :: "string dict list \<Rightarrow> string \<Rightarrow> error + bool" where
  "any_id [] ident = Inr False"
| "any_id (img # imgs) ident =
     (case img ''id'' of
        None \<Rightarrow> Inl (KeyError ''id'')
      | Some i \<Rightarrow> if i = ident then Inr True else any_id imgs ident)"

definition resolve ::
  "tool \<Rightarrow> (string \<Rightarrow> error + string dict list) \<Rightarrow> string \<Rightarrow> trace \<Rightarrow> (error + string) \<times> trace" where
  "resolve tool loads ident tr =
     (case py_iter (list_images tool loads None False) of
        Inl e \<Rightarrow> (Inl e, tr)
      | Inr imgs \<Rightarrow>
          (case any_id imgs ident of
             Inl e \<Rightarrow> (Inl e, tr)
           | Inr found \<Rightarrow>
               if found then (Inr ident, tr)
               else
                 (case buildah_out tool [''pull'', ''--quiet'', ident] tr of
                    (Inl exc, tr') \<Rightarrow> (Inl (pull_failed ident exc), tr')
                  | (Inr stdout, tr') \<Rightarrow> (Inr (strip stdout), tr'))))"

definition pull :: "tool \<Rightarrow> string \<Rightarrow> trace \<Rightarrow> (error + image) \<times> trace" where
  "pull tool name tr =
     (case buildah_out tool [''pull'', name] tr of
        (Inl exc, tr') \<Rightarrow> (Inl (pull_failed name exc), tr')
      | (Inr stdout, tr') \<Rightarrow> (Inr (from_id_only (strip stdout)), tr'))"

subsection \<open>The update arguments as the specification words them\<close>

text \<open>
  One flag group per changed field, in the order command, entrypoint, working directory,
  environment additions, environment deletions, volume additions, volume deletions. A
  key of the environment is added or changed when the live mapping has it with a value
  the snapshot does not give it, and deleted when only the snapshot has it.
\<close>

definition single_quoted :: "string \<Rightarrow> string" where
  "single_quoted s = [CHR 0x27] @ s @ [CHR 0x27]"

definition env_addition :: "string dict \<Rightarrow> string \<Rightarrow> string list" where
  "env_addition env k = (case env k of Some v \<Rightarrow> [''--env'', k @ ''='' @ v] | None \<Rightarrow> [])"

definition spec_update_arguments ::
  "(string set \<Rightarrow> string list) \<Rightarrow> container \<Rightarrow> snapshot \<Rightarrow> string list" where
  "spec_update_arguments it c snap =
       (if command c \<noteq> s_command snap
        then [''--cmd'', join '' '' (map single_quoted (command c))] else [])
     @ (if entrypoint c \<noteq> s_entrypoint snap
        then [''--entrypoint'', json_dumps (entrypoint c)] else [])
     @ (if workdir c \<noteq> s_workdir snap
        then [''--workingdir'', workdir c] else [])
     @ concat (map (env_addition (environ c))
                 (it {k \<in> dom (environ c). environ c k \<noteq> s_environ snap k}))
     @ concat (map (\<lambda>k. [''--env'', k @ ''-''])
                 (it (dom (s_environ snap) - dom (environ c))))
     @ concat (map (\<lambda>v. [''--volume'', v]) (it (volumes c - s_volumes snap)))
     @ concat (map (\<lambda>v. [''--volume'', v @ ''-'']) (it (s_volumes snap - volumes c)))"

text \<open>
  An entry \<open>KEY=VALUE\<close> of the environment: the key is the text before the first
  \<open>=\<close>, the value all the text after it.
\<close>

definition entry_key :: "string \<Rightarrow> string" where
  "entry_key item = takeWhile (\<lambda>ch. ch \<noteq> CHR ''='') item"

definition entry_value :: "string \<Rightarrow> string" where
  "entry_value item = tl (dropWhile (\<lambda>ch. ch \<noteq> CHR ''='') item)"

text \<open>
  An argument list made of flag groups, read back as the list of its groups: a flag and
  its value.
\<close>

fun flag_groups :: "string list \<Rightarrow> (string \<times> string) list" where
  "flag_groups (flag # val # rest) = (flag, val) # flag_groups rest"
| "flag_groups _ = []"

definition flags :: "string list \<Rightarrow> string set" where
  "flags args = fst ` set (flag_groups args)"

section \<open>Properties\<close>

subsection \<open>The dictionary diff\<close>

lemma changed_loop_closed:
  "set keys \<subseteq> dom old \<inter> dom new \<Longrightarrow>
   changed_loop old new keys changed = Inr (changed \<union> {k \<in> set keys. new k \<noteq> old k})"
proof (induction keys arbitrary: changed)
  case Nil
  show ?case by simp
next
  case (Cons key keys)
  from Cons.prems obtain nv ov where v: "new key = Some nv" "old key = Some ov"
    by auto
  from Cons.prems have sub: "set keys \<subseteq> dom old \<inter> dom new"
    by simp
  show ?case
    using v Cons.IH [OF sub] by auto
qed

lemma dict_diff_closed:
  assumes "iteration_order it" and "finite (dom old)" and "finite (dom new)"
  shows "dict_diff it old new =
           Inr ((dom new - dom old) \<union> {k \<in> dom new \<inter> dom old. new k \<noteq> old k}, dom old - dom new)"
proof -
  have fin: "finite (dom new \<inter> dom old)"
    using assms(2) by simp
  have keys: "set (it (dom new \<inter> dom old)) = dom new \<inter> dom old"
    using assms(1) fin by (simp add: iteration_order_def)
  have loop: "changed_loop old new (it (dom new \<inter> dom old)) (dom new - dom old) =
        Inr ((dom new - dom old) \<union> {k \<in> dom new \<inter> dom old. new k \<noteq> old k})"
    using changed_loop_closed [of "it (dom new \<inter> dom old)" old new "dom new - dom old"] keys
    by auto
  have disj: "((dom new - dom old) \<union> {k \<in> dom new \<inter> dom old. new k \<noteq> old k}) \<inter> (dom old - dom new) = {}"
    by auto
  show ?thesis
    unfolding dict_diff_def Let_def loop using disj by simp
qed

lemma iteration_order_sorted: "iteration_order sorted_list_of_set"
  by (simp add: iteration_order_def)

text \<open>
  Claim C1. For every snapshot mapping \<open>old\<close> and live mapping \<open>new\<close>, \<open>_dict_diff\<close>
  returns (it never raises) two sets. The first holds the keys added or changed: the
  keys only \<open>new\<close> has, and the keys of both whose values differ. The second holds the
  keys deleted: the keys only \<open>old\<close> has. The two sets are disjoint; together with the
  unchanged keys (the keys of both mappings that carry the same value in both), which
  neither set holds, they make up exactly the keys of \<open>old\<close> and \<open>new\<close>; and when the
  two mappings are equal both returned sets are empty.
\<close>

theorem dict_diff_correct:
  assumes "iteration_order it" and "finite (dom old)" and "finite (dom new)"
  shows "\<exists>changed deleted.
           dict_diff it old new = Inr (changed, deleted)
         \<and> changed = (dom new - dom old) \<union> {k \<in> dom old \<inter> dom new. old k \<noteq> new k}
         \<and> deleted = dom old - dom new
         \<and> changed \<inter> deleted = {}
         \<and> changed \<union> deleted \<union> {k \<in> dom old \<inter> dom new. old k = new k} = dom old \<union> dom new
         \<and> (changed \<union> deleted) \<inter> {k \<in> dom old \<inter> dom new. old k = new k} = {}
         \<and> (old = new \<longrightarrow> changed = {} \<and> deleted = {})"
proof -
  let ?changed = "(dom new - dom old) \<union> {k \<in> dom old \<inter> dom new. old k \<noteq> new k}"
  let ?deleted = "dom old - dom new"
  have same: "(dom new - dom old) \<union> {k \<in> dom new \<inter> dom old. new k \<noteq> old k} = ?changed"
    by auto
  have r: "dict_diff it old new = Inr (?changed, ?deleted)"
    using dict_diff_closed [OF assms] by (simp only: same)
  have d: "?changed \<inter> ?deleted = {}"
    by auto
  have u: "?changed \<union> ?deleted \<union> {k \<in> dom old \<inter> dom new. old k = new k} = dom old \<union> dom new"
    by auto
  have n: "(?changed \<union> ?deleted) \<inter> {k \<in> dom old \<inter> dom new. old k = new k} = {}"
    by auto
  have e: "old = new \<longrightarrow> ?changed = {} \<and> ?deleted = {}"
    by auto
  from r d u n e show ?thesis
    by blast
qed

theorem dict_diff_correct_witness:
  "dict_diff sorted_list_of_set [''A'' \<mapsto> ''1'', ''B'' \<mapsto> ''2''] [''B'' \<mapsto> ''3'', ''C'' \<mapsto> ''4'']
     = Inr ({''B'', ''C''}, {''A''})
   \<and> dict_diff sorted_list_of_set Map.empty [''A'' \<mapsto> ''1''] = Inr ({''A''}, {})"
proof -
  let ?old = "[''A'' \<mapsto> ''1'', ''B'' \<mapsto> ''2'']"
  let ?new = "[''B'' \<mapsto> ''3'', ''C'' \<mapsto> ''4'']"
  have f1: "finite (dom ?old)"
    by simp
  have f2: "finite (dom ?new)"
    by simp
  have c1: "(dom ?new - dom ?old) \<union> {k \<in> dom ?old \<inter> dom ?new. ?old k \<noteq> ?new k} = {''B'', ''C''}"
    by auto
  have d1: "dom ?old - dom ?new = {''A''}"
    by auto
  have one: "dict_diff sorted_list_of_set ?old ?new = Inr ({''B'', ''C''}, {''A''})"
    using dict_diff_correct [OF iteration_order_sorted f1 f2] unfolding c1 d1 by blast
  have f3: "finite (dom (Map.empty :: string dict))"
    by simp
  have f4: "finite (dom [''A'' \<mapsto> ''1''])"
    by simp
  have c2: "(dom [''A'' \<mapsto> ''1''] - dom (Map.empty :: string dict))
      \<union> {k \<in> dom (Map.empty :: string dict) \<inter> dom [''A'' \<mapsto> ''1''].
            (Map.empty :: string dict) k \<noteq> [''A'' \<mapsto> ''1''] k} = {''A''}"
    by auto
  have d2: "dom (Map.empty :: string dict) - dom [''A'' \<mapsto> ''1''] = {}"
    by auto
  have two: "dict_diff sorted_list_of_set Map.empty [''A'' \<mapsto> ''1''] = Inr ({''A''}, {})"
    using dict_diff_correct [OF iteration_order_sorted f3 f4] unfolding c2 d2 by blast
  from one two show ?thesis
    by simp
qed

subsection \<open>The update arguments\<close>

lemma env_add_loop_closed:
  "set keys \<subseteq> dom env \<Longrightarrow>
   env_add_loop env keys args = Inr (args @ concat (map (env_addition env) keys))"
  by (induction keys arbitrary: args) (auto simp: env_addition_def)

lemma env_del_loop_closed:
  "env_del_loop keys args = args @ concat (map (\<lambda>k. [''--env'', k @ ''-'']) keys)"
  by (induction keys arbitrary: args) auto

lemma vol_add_loop_closed:
  "vol_add_loop vs args = args @ concat (map (\<lambda>v. [''--volume'', v]) vs)"
  by (induction vs arbitrary: args) auto

lemma vol_del_loop_closed:
  "vol_del_loop vs args = args @ concat (map (\<lambda>v. [''--volume'', v @ ''-'']) vs)"
  by (induction vs arbitrary: args) auto

lemma added_or_changed_eq:
  "(dom new - dom old) \<union> {k \<in> dom new \<inter> dom old. new k \<noteq> old k} = {k \<in> dom new. new k \<noteq> old k}"
  by auto

lemma produce_config_args_closed:
  assumes it: "iteration_order it"
    and snap: "snapshot c = Some snap"
    and fin: "finite (dom (environ c))" "finite (dom (s_environ snap))"
  shows "produce_config_args it c = Inr (spec_update_arguments it c snap)"
proof -
  let ?add = "{k \<in> dom (environ c). environ c k \<noteq> s_environ snap k}"
  have diff: "dict_diff it (s_environ snap) (environ c) =
                Inr (?add, dom (s_environ snap) - dom (environ c))"
    using dict_diff_closed [OF it fin(2) fin(1)] by (simp only: added_or_changed_eq)
  have "finite ?add"
    using fin(1) by simp
  then have "set (it ?add) = ?add"
    using it by (simp add: iteration_order_def)
  then have sub: "set (it ?add) \<subseteq> dom (environ c)"
    by auto
  have sq: "(\<lambda>s. CHR 0x27 # s @ [CHR 0x27]) = single_quoted"
    by (rule ext) (simp add: single_quoted_def)
  show ?thesis
    unfolding produce_config_args_def spec_update_arguments_def
    by (simp add: snap diff env_add_loop_closed [OF sub] env_del_loop_closed
        vol_add_loop_closed vol_del_loop_closed join_shellwords_def sq Let_def)
qed


lemma iteration_order_empty: "iteration_order it \<Longrightarrow> it {} = []"
  unfolding iteration_order_def by (drule spec [of _ "{}"]) simp

lemma flags_group:
  "flags ((if b then [f, v] else []) @ rest) \<subseteq> (if b then {f} else {}) \<union> flags rest"
  by (auto simp: flags_def)

lemma flags_concat_weak:
  "flags (concat (map (\<lambda>k. [f, g k]) ks) @ rest) \<subseteq> {f} \<union> flags rest"
  unfolding flags_def
proof (induction ks)
  case Nil
  show ?case by auto
next
  case (Cons k ks)
  then show ?case by auto
qed

lemma flags_concat:
  "flags (concat (map (\<lambda>k. [f, g k]) ks) @ rest) \<subseteq> (if ks \<noteq> [] then {f} else {}) \<union> flags rest"
proof (cases "ks = []")
  case True
  then show ?thesis by simp
next
  case False
  then show ?thesis using flags_concat_weak [of f g ks rest] by simp
qed

lemma flags_env_add_weak:
  "flags (concat (map (env_addition env) ks) @ rest) \<subseteq> {''--env''} \<union> flags rest"
  unfolding flags_def
proof (induction ks)
  case Nil
  show ?case by auto
next
  case (Cons k ks)
  then show ?case by (cases "env k") (auto simp: env_addition_def)
qed

lemma flags_env_add:
  "flags (concat (map (env_addition env) ks) @ rest) \<subseteq>
     (if ks \<noteq> [] then {''--env''} else {}) \<union> flags rest"
proof (cases "ks = []")
  case True
  then show ?thesis by simp
next
  case False
  then show ?thesis using flags_env_add_weak [of env ks rest] by simp
qed

lemma flags_spec_update_arguments:
  "flags (spec_update_arguments it c snap) \<subseteq>
     (if command c \<noteq> s_command snap then {''--cmd''} else {})
   \<union> (if entrypoint c \<noteq> s_entrypoint snap then {''--entrypoint''} else {})
   \<union> (if workdir c \<noteq> s_workdir snap then {''--workingdir''} else {})
   \<union> (if it {k \<in> dom (environ c). environ c k \<noteq> s_environ snap k} \<noteq> []
         \<or> it (dom (s_environ snap) - dom (environ c)) \<noteq> [] then {''--env''} else {})
   \<union> (if it (volumes c - s_volumes snap) \<noteq> [] \<or> it (s_volumes snap - volumes c) \<noteq> []
       then {''--volume''} else {})"
  (is "_ \<subseteq> ?A \<union> ?B \<union> ?C \<union> ?D \<union> ?E")
proof -
  define g7 where "g7 = concat (map (\<lambda>v. [''--volume'', v @ ''-'']) (it (s_volumes snap - volumes c))) @ []"
  define g6 where "g6 = concat (map (\<lambda>v. [''--volume'', v]) (it (volumes c - s_volumes snap))) @ g7"
  define g5 where "g5 = concat (map (\<lambda>k. [''--env'', k @ ''-''])
                 (it (dom (s_environ snap) - dom (environ c)))) @ g6"
  define g4 where "g4 = concat (map (env_addition (environ c))
                 (it {k \<in> dom (environ c). environ c k \<noteq> s_environ snap k})) @ g5"
  define g3 where "g3 = (if workdir c \<noteq> s_workdir snap
        then [''--workingdir'', workdir c] else []) @ g4"
  define g2 where "g2 = (if entrypoint c \<noteq> s_entrypoint snap
        then [''--entrypoint'', json_dumps (entrypoint c)] else []) @ g3"
  define g1 where "g1 = (if command c \<noteq> s_command snap
        then [''--cmd'', join '' '' (map single_quoted (command c))] else []) @ g2"
  have all: "spec_update_arguments it c snap = g1"
    by (simp add: spec_update_arguments_def g1_def g2_def g3_def g4_def g5_def g6_def g7_def)
  have e0: "flags [] = {}"
    by (simp add: flags_def)
  have s7: "flags g7 \<subseteq> (if it (s_volumes snap - volumes c) \<noteq> [] then {''--volume''} else {}) \<union> flags []"
    unfolding g7_def by (rule flags_concat)
  have s6: "flags g6 \<subseteq> (if it (volumes c - s_volumes snap) \<noteq> [] then {''--volume''} else {}) \<union> flags g7"
    unfolding g6_def by (rule flags_concat)
  have s5: "flags g5 \<subseteq> (if it (dom (s_environ snap) - dom (environ c)) \<noteq> [] then {''--env''} else {}) \<union> flags g6"
    unfolding g5_def by (rule flags_concat)
  have s4: "flags g4 \<subseteq> (if it {k \<in> dom (environ c). environ c k \<noteq> s_environ snap k} \<noteq> [] then {''--env''} else {}) \<union> flags g5"
    unfolding g4_def by (rule flags_env_add)
  have s3: "flags g3 \<subseteq> ?C \<union> flags g4"
    unfolding g3_def by (rule flags_group)
  have s2: "flags g2 \<subseteq> ?B \<union> flags g3"
    unfolding g2_def by (rule flags_group)
  have s1: "flags g1 \<subseteq> ?A \<union> flags g2"
    unfolding g1_def by (rule flags_group)
  have v1: "(if it (s_volumes snap - volumes c) \<noteq> [] then {''--volume''} else {}) \<subseteq> ?E"
    by simp
  have v2: "(if it (volumes c - s_volumes snap) \<noteq> [] then {''--volume''} else {}) \<subseteq> ?E"
    by simp
  have n1: "(if it (dom (s_environ snap) - dom (environ c)) \<noteq> [] then {''--env''} else {}) \<subseteq> ?D"
    by simp
  have n2: "(if it {k \<in> dom (environ c). environ c k \<noteq> s_environ snap k} \<noteq> [] then {''--env''} else {}) \<subseteq> ?D"
    by simp
  have f6: "flags g6 \<subseteq> ?E"
    using s7 s6 v1 v2 e0 by blast
  have f4: "flags g4 \<subseteq> ?D \<union> ?E"
    using s5 s4 n1 n2 f6 by blast
  have "flags g1 \<subseteq> ?A \<union> ?B \<union> ?C \<union> ?D \<union> ?E"
    using s1 s2 s3 f4 by blast
  then show ?thesis
    by (simp only: all)
qed

lemma regroup_env_add:
  "concat (map (\<lambda>(f, v). [f, v]) (flag_groups (concat (map (env_addition env) ks) @ rest))) =
   concat (map (env_addition env) ks) @ concat (map (\<lambda>(f, v). [f, v]) (flag_groups rest))"
  by (induction ks) (auto simp: env_addition_def split: option.splits)

lemma regroup_concat:
  "concat (map (\<lambda>(f, v). [f, v]) (flag_groups (concat (map (\<lambda>k. [fl, g k]) ks) @ rest))) =
   concat (map (\<lambda>k. [fl, g k]) ks) @ concat (map (\<lambda>(f, v). [f, v]) (flag_groups rest))"
  by (induction ks) auto

lemma regroup_concat_last:
  "concat (map (\<lambda>(f, v). [f, v]) (flag_groups (concat (map (\<lambda>k. [fl, g k]) ks)))) =
   concat (map (\<lambda>k. [fl, g k]) ks)"
  using regroup_concat [of fl g ks "[]"] by simp

lemma regroup_spec_update_arguments:
  "concat (map (\<lambda>(f, v). [f, v]) (flag_groups (spec_update_arguments it c snap))) =
     spec_update_arguments it c snap"
  unfolding spec_update_arguments_def
  by (simp add: regroup_env_add regroup_concat regroup_concat_last)

text \<open>
  \<open>_join_shellwords\<close> on a token that holds a single quote: the quote is passed through
  between the two quotes put around the token.
\<close>

lemma join_shellwords_example:
  "join_shellwords [''echo'', [CHR ''i'', CHR ''t'', CHR 0x27, CHR ''s'']] =
     [CHR 0x27] @ ''echo'' @ [CHR 0x27, CHR '' '', CHR 0x27, CHR ''i'', CHR ''t'', CHR 0x27, CHR ''s'', CHR 0x27]"
  by (simp add: join_shellwords_def)

text \<open>
  The model of \<open>json.dumps\<close> on a list whose second string holds a double quote, a
  backslash, a newline, a delete character, a control character and a letter beyond
  ASCII.
\<close>

lemma json_dumps_example:
  "json_dumps [''/bin/sh'', [CHR ''a'', CHR 0x22, CHR ''b'', CHR 0x5C, CHR 0x0A, CHR 0x7F, CHR 0x01, CHR 0xE9]] =
     [CHR ''['', CHR 0x22] @ ''/bin/sh'' @ [CHR 0x22] @ '', '' @
     [CHR 0x22, CHR ''a'', CHR 0x5C, CHR 0x22, CHR ''b'', CHR 0x5C, CHR 0x5C, CHR 0x5C, CHR ''n''] @
     [CHR 0x5C] @ ''u007f'' @ [CHR 0x5C] @ ''u0001'' @ [CHR 0x5C] @ ''u00e9'' @ [CHR 0x22, CHR '']'']"
  by (simp add: json_dumps_def json_dumps_str_def json_escape_def hex_digit_def)

text \<open>
  Claim C4. For every container state and snapshot, \<open>_produce_config_args\<close> returns the
  argument list the specification describes: one flag group per changed field, in the
  order command, entrypoint, working directory, environment additions, environment
  deletions, volume additions, volume deletions; the command as its tokens, each between
  single quotes with nothing escaped, joined by spaces; the entrypoint as a JSON array;
  the working directory as it is; an environment addition as \<open>KEY=VALUE\<close>, an
  environment deletion as \<open>KEY-\<close>; a volume addition as the path, a volume deletion as
  the path followed by \<open>-\<close>. Within the environment and the volume groups the order is
  the iteration order of the set.
\<close>

theorem produce_config_args_as_specified:
  assumes "iteration_order it" and "snapshot c = Some snap"
    and "finite (dom (environ c))" and "finite (dom (s_environ snap))"
  shows "produce_config_args it c = Inr (spec_update_arguments it c snap)"
  using assms by (rule produce_config_args_closed)

theorem produce_config_args_as_specified_witness:
  "produce_config_args sorted_list_of_set
     ((snapshot_config ((new_container ''ctr'')\<lparr>volumes := {''/data''}\<rparr>))
        \<lparr>volumes := {}, command := [''echo'', ''hi'']\<rparr>)
   = Inr [''--cmd'', CHR 0x27 # ''echo'' @ [CHR 0x27, CHR '' '', CHR 0x27] @ ''hi'' @ [CHR 0x27],
          ''--volume'', ''/data-'']"
proof -
  let ?snap = "Snapshot ''ctr'' Map.empty [] [] Map.empty {''/data''} [] None"
  let ?c = "(snapshot_config ((new_container ''ctr'')\<lparr>volumes := {''/data''}\<rparr>))
        \<lparr>volumes := {}, command := [''echo'', ''hi'']\<rparr>"
  have s: "snapshot ?c = Some ?snap"
    by (simp add: snapshot_config_def new_container_def)
  have f1: "finite (dom (environ ?c))"
    by (simp add: snapshot_config_def new_container_def)
  have f2: "finite (dom (s_environ ?snap))"
    by simp
  have v: "spec_update_arguments sorted_list_of_set ?c ?snap =
      [''--cmd'', CHR 0x27 # ''echo'' @ [CHR 0x27, CHR '' '', CHR 0x27] @ ''hi'' @ [CHR 0x27],
          ''--volume'', ''/data-'']"
    by (simp add: spec_update_arguments_def snapshot_config_def new_container_def single_quoted_def)
  show ?thesis
    using produce_config_args_as_specified [OF iteration_order_sorted s f1 f2] v by simp
qed

lemma unchanged_no_arguments:
  assumes it: "iteration_order it"
    and eq: "command c = s_command snap" "entrypoint c = s_entrypoint snap" "workdir c = s_workdir snap"
      "environ c = s_environ snap" "volumes c = s_volumes snap"
  shows "spec_update_arguments it c snap = []"
proof -
  have e: "{k \<in> dom (s_environ snap). s_environ snap k \<noteq> s_environ snap k} = {}"
    by simp
  show ?thesis
    unfolding spec_update_arguments_def
    by (simp add: eq e iteration_order_empty [OF it])
qed

text \<open>
  Claim C5. \<open>_produce_config_args\<close> returns a list of flag groups in which no group
  carries the flag of a field whose live value equals its snapshot value: no \<open>--cmd\<close>
  for an unchanged command, no \<open>--entrypoint\<close> for an unchanged entrypoint, no
  \<open>--workingdir\<close> for an unchanged working directory, no \<open>--env\<close> for an unchanged
  environment, no \<open>--volume\<close> for an unchanged set of volumes; and the list is empty when
  all of these fields equal their snapshot values.
\<close>

theorem produce_config_args_minimal:
  assumes "iteration_order it" and "snapshot c = Some snap"
    and "finite (dom (environ c))" and "finite (dom (s_environ snap))"
  shows "\<exists>args. produce_config_args it c = Inr args
           \<and> concat (map (\<lambda>(flag, val). [flag, val]) (flag_groups args)) = args
           \<and> (command c = s_command snap \<longrightarrow> ''--cmd'' \<notin> flags args)
           \<and> (entrypoint c = s_entrypoint snap \<longrightarrow> ''--entrypoint'' \<notin> flags args)
           \<and> (workdir c = s_workdir snap \<longrightarrow> ''--workingdir'' \<notin> flags args)
           \<and> (environ c = s_environ snap \<longrightarrow> ''--env'' \<notin> flags args)
           \<and> (volumes c = s_volumes snap \<longrightarrow> ''--volume'' \<notin> flags args)
           \<and> (command c = s_command snap \<and> entrypoint c = s_entrypoint snap
                \<and> workdir c = s_workdir snap \<and> environ c = s_environ snap
                \<and> volumes c = s_volumes snap \<longrightarrow> args = [])"
proof -
  let ?args = "spec_update_arguments it c snap"
  have r: "produce_config_args it c = Inr ?args"
    using assms by (rule produce_config_args_closed)
  have g: "concat (map (\<lambda>(flag, val). [flag, val]) (flag_groups ?args)) = ?args"
    by (rule regroup_spec_update_arguments)
  define A where "A = (if command c \<noteq> s_command snap then {''--cmd''} else {})"
  define B where "B = (if entrypoint c \<noteq> s_entrypoint snap then {''--entrypoint''} else {})"
  define C where "C = (if workdir c \<noteq> s_workdir snap then {''--workingdir''} else {})"
  define D where "D = (if it {k \<in> dom (environ c). environ c k \<noteq> s_environ snap k} \<noteq> []
         \<or> it (dom (s_environ snap) - dom (environ c)) \<noteq> [] then {''--env''} else {})"
  define E where "E = (if it (volumes c - s_volumes snap) \<noteq> [] \<or> it (s_volumes snap - volumes c) \<noteq> []
       then {''--volume''} else {})"
  have fl: "flags ?args \<subseteq> A \<union> B \<union> C \<union> D \<union> E"
    unfolding A_def B_def C_def D_def E_def by (rule flags_spec_update_arguments)
  have e0: "it {} = []"
    using assms(1) by (rule iteration_order_empty)
  have sub: "A \<subseteq> {''--cmd''}" "B \<subseteq> {''--entrypoint''}" "C \<subseteq> {''--workingdir''}"
    "D \<subseteq> {''--env''}" "E \<subseteq> {''--volume''}"
    by (simp_all add: A_def B_def C_def D_def E_def)
  have c1: "command c = s_command snap \<longrightarrow> ''--cmd'' \<notin> flags ?args"
  proof
    assume "command c = s_command snap"
    then have "A = {}" by (simp add: A_def)
    then show "''--cmd'' \<notin> flags ?args" using fl sub by auto
  qed
  have c2: "entrypoint c = s_entrypoint snap \<longrightarrow> ''--entrypoint'' \<notin> flags ?args"
  proof
    assume "entrypoint c = s_entrypoint snap"
    then have "B = {}" by (simp add: B_def)
    then show "''--entrypoint'' \<notin> flags ?args" using fl sub by auto
  qed
  have c3: "workdir c = s_workdir snap \<longrightarrow> ''--workingdir'' \<notin> flags ?args"
  proof
    assume "workdir c = s_workdir snap"
    then have "C = {}" by (simp add: C_def)
    then show "''--workingdir'' \<notin> flags ?args" using fl sub by auto
  qed
  have c4: "environ c = s_environ snap \<longrightarrow> ''--env'' \<notin> flags ?args"
  proof
    assume eq: "environ c = s_environ snap"
    have a: "{k \<in> dom (environ c). environ c k \<noteq> s_environ snap k} = {}"
      using eq by simp
    have d: "dom (s_environ snap) - dom (environ c) = {}"
      using eq by simp
    have "D = {}"
      unfolding D_def a d by (simp add: e0)
    then show "''--env'' \<notin> flags ?args" using fl sub by auto
  qed
  have c5: "volumes c = s_volumes snap \<longrightarrow> ''--volume'' \<notin> flags ?args"
  proof
    assume "volumes c = s_volumes snap"
    then have "E = {}" using e0 by (simp add: E_def)
    then show "''--volume'' \<notin> flags ?args" using fl sub by auto
  qed
  have c6: "command c = s_command snap \<and> entrypoint c = s_entrypoint snap
                \<and> workdir c = s_workdir snap \<and> environ c = s_environ snap
                \<and> volumes c = s_volumes snap \<longrightarrow> ?args = []"
    using unchanged_no_arguments [OF assms(1)] by blast
  from r g c1 c2 c3 c4 c5 c6 show ?thesis
    by blast
qed

theorem produce_config_args_minimal_witness:
  "\<exists>args. produce_config_args sorted_list_of_set
       ((snapshot_config ((new_container ''ctr'')\<lparr>volumes := {''/data''}\<rparr>))\<lparr>workdir := ''/srv''\<rparr>)
       = Inr args
     \<and> ''--cmd'' \<notin> flags args \<and> ''--entrypoint'' \<notin> flags args
     \<and> ''--env'' \<notin> flags args \<and> ''--volume'' \<notin> flags args"
proof -
  let ?snap = "Snapshot ''ctr'' Map.empty [] [] Map.empty {''/data''} [] None"
  let ?c = "(snapshot_config ((new_container ''ctr'')\<lparr>volumes := {''/data''}\<rparr>))\<lparr>workdir := ''/srv''\<rparr>"
  have s: "snapshot ?c = Some ?snap"
    by (simp add: snapshot_config_def new_container_def)
  have f1: "finite (dom (environ ?c))"
    by (simp add: snapshot_config_def new_container_def)
  have f2: "finite (dom (s_environ ?snap))"
    by simp
  have eqs: "command ?c = s_command ?snap" "entrypoint ?c = s_entrypoint ?snap"
    "environ ?c = s_environ ?snap" "volumes ?c = s_volumes ?snap"
    by (simp_all add: snapshot_config_def new_container_def)
  from produce_config_args_minimal [OF iteration_order_sorted s f1 f2] eqs show ?thesis
    by blast
qed

subsection \<open>Reconciliation\<close>

lemma buildah_out_trace: "snd (buildah_out tool cmd tr) = tr @ [''buildah'' # cmd]"
  by (simp add: buildah_out_def Let_def)

lemma buildah_out_fails:
  "fst (tool tr (''buildah'' # cmd)) \<noteq> 0 \<Longrightarrow>
   buildah_out tool cmd tr =
     (Inl (CalledProcessError (fst (tool tr (''buildah'' # cmd))) (''buildah'' # cmd)
             (snd (tool tr (''buildah'' # cmd)))),
      tr @ [''buildah'' # cmd])"
  by (simp add: buildah_out_def Let_def)

lemma buildah_out_succeeds:
  "fst (tool tr (''buildah'' # cmd)) = 0 \<Longrightarrow>
   buildah_out tool cmd tr = (Inr (snd (tool tr (''buildah'' # cmd))), tr @ [''buildah'' # cmd])"
  by (simp add: buildah_out_def Let_def)

lemma commit_config_no_arguments:
  "snapshot c = Some snap \<Longrightarrow> produce_config_args it c = Inr [] \<Longrightarrow>
   commit_config tool it c tr = (Inr (), c, tr)"
  by (simp add: commit_config_def)

lemma snapshot_config_synchronised:
  assumes it: "iteration_order it" and fin: "finite (dom (environ c))"
  shows "produce_config_args it (snapshot_config c) = Inr []"
proof -
  let ?c = "snapshot_config c"
  let ?snap = "Snapshot (c_id c) (environ c) (command c) (entrypoint c)
                           (labels c) (volumes c) (workdir c) (snapshot c)"
  have s: "snapshot ?c = Some ?snap"
    by (simp add: snapshot_config_def)
  have f1: "finite (dom (environ ?c))"
    using fin by (simp add: snapshot_config_def)
  have f2: "finite (dom (s_environ ?snap))"
    using fin by simp
  have "spec_update_arguments it ?c ?snap = []"
    by (rule unchanged_no_arguments [OF it]) (simp_all add: snapshot_config_def)
  then show ?thesis
    using produce_config_args_closed [OF it s f1 f2] by simp
qed

text \<open>
  Claim C2. When \<open>_commit_config\<close> has returned and is called again on the object as
  the first call left it, the second call sends nothing: the argument list it computes
  is empty, the trace of commands and the object stay as they are, whatever the tool
  would have answered. The first call runs at most one command, so the two calls
  together run at most one.
\<close>

theorem commit_config_idempotent:
  assumes it: "iteration_order it"
    and fin: "finite (dom (environ c))"
    and first: "commit_config tool it c tr = (Inr (), c', tr')"
  shows "length tr' \<le> Suc (length tr)
       \<and> (snapshot c' \<noteq> None \<longrightarrow> produce_config_args it c' = Inr [])
       \<and> commit_config tool2 it c' tr' = (Inr (), c', tr')"
proof (cases "snapshot c")
  case None
  then have "commit_config tool it c tr = (Inr (), c, tr)"
    by (simp add: commit_config_def)
  with first have "c' = c" and "tr' = tr"
    by simp_all
  then show ?thesis
    using None by (simp add: commit_config_def)
next
  case (Some snap)
  show ?thesis
  proof (cases "produce_config_args it c")
    case (Inl e)
    with Some first show ?thesis
      by (simp add: commit_config_def)
  next
    case (Inr args)
    show ?thesis
    proof (cases "args = []")
      case True
      with Some Inr first have same: "c' = c" "tr' = tr"
        by (simp_all add: commit_config_def)
      have "commit_config tool2 it c tr = (Inr (), c, tr)"
        using Some Inr True by (simp add: commit_config_def)
      then show ?thesis
        using same Inr True by simp
    next
      case False
      let ?cmd = "''config'' # args @ [c_id c]"
      have run: "commit_config tool it c tr =
          (case buildah_out tool ?cmd tr of
             (Inl e, tr1) \<Rightarrow> (Inl e, c, tr1)
           | (Inr _, tr1) \<Rightarrow> (Inr (), snapshot_config c, tr1))"
        using Some Inr False by (simp add: commit_config_def)
      have tr1: "snd (buildah_out tool ?cmd tr) = tr @ [''buildah'' # ?cmd]"
        by (rule buildah_out_trace)
      obtain r where out: "buildah_out tool ?cmd tr = (r, tr @ [''buildah'' # ?cmd])"
        using tr1 by (cases "buildah_out tool ?cmd tr") simp
      from first run out have after: "c' = snapshot_config c" "tr' = tr @ [''buildah'' # ?cmd]"
        by (cases r; simp)+
      have none: "produce_config_args it c' = Inr []"
        unfolding after by (rule snapshot_config_synchronised [OF it fin])
      have "snapshot c' \<noteq> None"
        by (simp add: after snapshot_config_def)
      then obtain snap' where "snapshot c' = Some snap'"
        by auto
      then have "commit_config tool2 it c' tr' = (Inr (), c', tr')"
        using none by (rule commit_config_no_arguments)
      then show ?thesis
        using none after by simp
    qed
  qed
qed

theorem commit_config_idempotent_witness:
  "commit_config (\<lambda>tr argv. (1, []))
     sorted_list_of_set
     (snapshot_config ((snapshot_config (new_container ''ctr''))\<lparr>workdir := ''/srv''\<rparr>))
     [[''buildah'', ''config'', ''--workingdir'', ''/srv'', ''ctr'']]
   = (Inr (),
      snapshot_config ((snapshot_config (new_container ''ctr''))\<lparr>workdir := ''/srv''\<rparr>),
      [[''buildah'', ''config'', ''--workingdir'', ''/srv'', ''ctr'']])"
proof -
  let ?c = "(snapshot_config (new_container ''ctr''))\<lparr>workdir := ''/srv''\<rparr>"
  have fin: "finite (dom (environ ?c))"
    by (simp add: snapshot_config_def new_container_def)
  have args: "produce_config_args sorted_list_of_set ?c = Inr [''--workingdir'', ''/srv'']"
    by (simp add: produce_config_args_def snapshot_config_def new_container_def dict_diff_def)
  have first: "commit_config (\<lambda>tr argv. (0, [])) sorted_list_of_set ?c [] =
      (Inr (), snapshot_config ?c, [[''buildah'', ''config'', ''--workingdir'', ''/srv'', ''ctr'']])"
    unfolding commit_config_def args
    by (simp add: buildah_out_def snapshot_config_def new_container_def)
  from commit_config_idempotent [OF iteration_order_sorted fin first,
      where ?tool2.0 = "\<lambda>tr argv. (1, [])"]
  show ?thesis
    by simp
qed

text \<open>
  Claim C3. When the \<open>config\<close> command that \<open>_commit_config\<close> runs exits with a nonzero
  code, the call raises the \<open>CalledProcessError\<close> of that command and leaves the object,
  its snapshot included, as it was; a later \<open>_commit_config\<close> on the object therefore
  runs the same command again.
\<close>

theorem commit_config_failure:
  assumes snap: "snapshot c = Some snap"
    and args: "produce_config_args it c = Inr args" "args \<noteq> []"
    and fails: "fst (tool tr (''buildah'' # ''config'' # args @ [c_id c])) \<noteq> 0"
  shows "commit_config tool it c tr =
           (Inl (CalledProcessError
                   (fst (tool tr (''buildah'' # ''config'' # args @ [c_id c])))
                   (''buildah'' # ''config'' # args @ [c_id c])
                   (snd (tool tr (''buildah'' # ''config'' # args @ [c_id c])))),
            c,
            tr @ [''buildah'' # ''config'' # args @ [c_id c]])
       \<and> snd (snd (commit_config tool2 it c tr2)) = tr2 @ [''buildah'' # ''config'' # args @ [c_id c]]"
proof -
  let ?cmd = "''config'' # args @ [c_id c]"
  have run: "\<And>t h. commit_config t it c h =
          (case buildah_out t ?cmd h of
             (Inl e, tr1) \<Rightarrow> (Inl e, c, tr1)
           | (Inr _, tr1) \<Rightarrow> (Inr (), snapshot_config c, tr1))"
    using snap args by (simp add: commit_config_def)
  have one: "commit_config tool it c tr =
           (Inl (CalledProcessError (fst (tool tr (''buildah'' # ?cmd))) (''buildah'' # ?cmd)
                   (snd (tool tr (''buildah'' # ?cmd)))),
            c, tr @ [''buildah'' # ?cmd])"
    unfolding run buildah_out_fails [where tool = tool and tr = tr and cmd = ?cmd, OF fails] by simp
  have two: "snd (snd (commit_config tool2 it c tr2)) = tr2 @ [''buildah'' # ?cmd]"
    unfolding run using buildah_out_trace [of tool2 ?cmd tr2]
    by (cases "buildah_out tool2 ?cmd tr2") (auto split: sum.splits)
  from one two show ?thesis
    by simp
qed

theorem commit_config_failure_witness:
  "commit_config (\<lambda>tr argv. (125, []))
     sorted_list_of_set
     ((snapshot_config (new_container ''ctr''))\<lparr>workdir := ''/srv''\<rparr>) []
   = (Inl (CalledProcessError 125 [''buildah'', ''config'', ''--workingdir'', ''/srv'', ''ctr''] []),
      (snapshot_config (new_container ''ctr''))\<lparr>workdir := ''/srv''\<rparr>,
      [[''buildah'', ''config'', ''--workingdir'', ''/srv'', ''ctr'']])
   \<and> snd (snd (commit_config (\<lambda>tr argv. (0, [])) sorted_list_of_set
        ((snapshot_config (new_container ''ctr''))\<lparr>workdir := ''/srv''\<rparr>)
        [[''buildah'', ''config'', ''--workingdir'', ''/srv'', ''ctr'']]))
     = [[''buildah'', ''config'', ''--workingdir'', ''/srv'', ''ctr''],
        [''buildah'', ''config'', ''--workingdir'', ''/srv'', ''ctr'']]"
proof -
  let ?c = "(snapshot_config (new_container ''ctr''))\<lparr>workdir := ''/srv''\<rparr>"
  have snap: "snapshot ?c = Some (Snapshot ''ctr'' Map.empty [] [] Map.empty {} [] None)"
    by (simp add: snapshot_config_def new_container_def)
  have args: "produce_config_args sorted_list_of_set ?c = Inr [''--workingdir'', ''/srv'']"
    by (simp add: produce_config_args_def snapshot_config_def new_container_def dict_diff_def)
  have ne: "[''--workingdir'', ''/srv''] \<noteq> []"
    by simp
  have fails: "fst ((\<lambda>tr argv. (125::int, [])) []
      (''buildah'' # ''config'' # [''--workingdir'', ''/srv''] @ [c_id ?c])) \<noteq> 0"
    by simp
  from commit_config_failure [OF snap args ne fails,
      where ?tool2.0 = "\<lambda>tr argv. (0, [])"
        and ?tr2.0 = "[[''buildah'', ''config'', ''--workingdir'', ''/srv'', ''ctr'']]"]
  show ?thesis
    by (simp add: snapshot_config_def new_container_def)
qed

subsection \<open>Reading the configuration\<close>

lemma split1_entry:
  assumes "CHR ''='' \<notin> set k"
  shows "split1 CHR ''='' (k @ ''='' @ v) = [k, v]"
proof -
  have k: "\<And>ch. ch \<in> set k \<Longrightarrow> ch \<noteq> CHR ''=''"
    using assms by auto
  have t: "takeWhile (\<lambda>ch. ch \<noteq> CHR ''='') (k @ CHR ''='' # v) = k"
    using k by simp
  have d: "dropWhile (\<lambda>ch. ch \<noteq> CHR ''='') (k @ CHR ''='' # v) = CHR ''='' # v"
    using k by simp
  show ?thesis
    by (simp add: split1_def t d)
qed

lemma entry_parts:
  assumes "CHR ''='' \<in> set item"
  shows "item = entry_key item @ ''='' @ entry_value item" and "CHR ''='' \<notin> set (entry_key item)"
proof -
  let ?P = "\<lambda>ch. ch \<noteq> CHR ''=''"
  have ne: "dropWhile ?P item \<noteq> []"
    using assms by (simp add: dropWhile_eq_Nil_conv)
  then have "hd (dropWhile ?P item) = CHR ''=''"
    using hd_dropWhile [of ?P item] by simp
  then have "dropWhile ?P item = CHR ''='' # tl (dropWhile ?P item)"
    using ne by (cases "dropWhile ?P item") simp_all
  then have "takeWhile ?P item @ CHR ''='' # tl (dropWhile ?P item) = item"
    using takeWhile_dropWhile_id [of ?P item] by simp
  then show "item = entry_key item @ ''='' @ entry_value item"
    by (simp add: entry_key_def entry_value_def)
  show "CHR ''='' \<notin> set (entry_key item)"
    unfolding entry_key_def using set_takeWhileD [of "CHR ''=''" ?P item] by blast
qed

lemma split1_item:
  "CHR ''='' \<in> set item \<Longrightarrow> split1 CHR ''='' item = [entry_key item, entry_value item]"
  by (simp add: split1_def entry_key_def entry_value_def)

lemma entry_key_append:
  assumes "CHR ''='' \<notin> set k"
  shows "entry_key (k @ ''='' @ v) = k"
proof -
  have "\<And>ch. ch \<in> set k \<Longrightarrow> ch \<noteq> CHR ''=''"
    using assms by auto
  then show ?thesis
    by (simp add: entry_key_def)
qed

lemma entry_value_append:
  assumes "CHR ''='' \<notin> set k"
  shows "entry_value (k @ ''='' @ v) = v"
proof -
  have "\<And>ch. ch \<in> set k \<Longrightarrow> ch \<noteq> CHR ''=''"
    using assms by auto
  then show ?thesis
    by (simp add: entry_value_def)
qed


lemma dict_of_entries:
  "\<forall>item \<in> set items. CHR ''='' \<in> set item \<Longrightarrow>
   dict_of (map (split1 CHR ''='') items) d =
     Inr (d ++ map_of (rev (map (\<lambda>item. (entry_key item, entry_value item)) items)))"
proof (induction items arbitrary: d)
  case Nil
  show ?case by simp
next
  case (Cons item items)
  let ?M = "map_of (rev (map (\<lambda>item. (entry_key item, entry_value item)) items))"
  have s: "split1 CHR ''='' item = [entry_key item, entry_value item]"
    using Cons.prems by (simp add: split1_item)
  have rest: "\<forall>i \<in> set items. CHR ''='' \<in> set i"
    using Cons.prems by simp
  have step: "dict_of (map (split1 CHR ''='') (item # items)) d =
      dict_of (map (split1 CHR ''='') items) (d(entry_key item \<mapsto> entry_value item))"
    by (simp add: s)
  have ih: "dict_of (map (split1 CHR ''='') items) (d(entry_key item \<mapsto> entry_value item)) =
      Inr (d(entry_key item \<mapsto> entry_value item) ++ ?M)"
    using rest by (rule Cons.IH)
  have m1: "map_of (rev (map (\<lambda>item. (entry_key item, entry_value item)) (item # items))) =
      [entry_key item \<mapsto> entry_value item] ++ ?M"
    by (simp only: list.map rev.simps map_of_append map_of.simps fst_conv snd_conv)
  have m2: "d(entry_key item \<mapsto> entry_value item) ++ ?M =
      d ++ ([entry_key item \<mapsto> entry_value item] ++ ?M)"
    by (rule ext) (simp add: map_add_def split: option.splits)
  show ?case
    unfolding step ih m1 m2 by (rule refl)
qed


lemma map_of_rev_last:
  "map_of (rev xs) k = Some v \<longleftrightarrow> (\<exists>pre post. xs = pre @ (k, v) # post \<and> k \<notin> fst ` set post)"
proof (induction xs rule: rev_induct)
  case Nil
  show ?case by simp
next
  case (snoc x xs)
  obtain k' v' where x: "x = (k', v')"
    by (cases x)
  show ?case
  proof (cases "k' = k")
    case True
    have "(\<exists>pre post. xs @ [(k, v')] = pre @ (k, v) # post \<and> k \<notin> fst ` set post) \<longleftrightarrow> v' = v"
    proof
      assume "\<exists>pre post. xs @ [(k, v')] = pre @ (k, v) # post \<and> k \<notin> fst ` set post"
      then obtain pre post where e: "xs @ [(k, v')] = pre @ (k, v) # post" and n: "k \<notin> fst ` set post"
        by blast
      show "v' = v"
      proof (cases post rule: rev_cases)
        case Nil
        with e show ?thesis by simp
      next
        case (snoc post' y)
        with e have "y = (k, v')" by simp
        with snoc n show ?thesis by simp
      qed
    next
      assume "v' = v"
      then have "xs @ [(k, v')] = xs @ (k, v) # [] \<and> k \<notin> fst ` set []"
        by simp
      then show "\<exists>pre post. xs @ [(k, v')] = pre @ (k, v) # post \<and> k \<notin> fst ` set post"
        by blast
    qed
    then show ?thesis
      using x True by simp
  next
    case False
    have "(\<exists>pre post. xs @ [(k', v')] = pre @ (k, v) # post \<and> k \<notin> fst ` set post) \<longleftrightarrow>
          (\<exists>pre post. xs = pre @ (k, v) # post \<and> k \<notin> fst ` set post)"
    proof
      assume "\<exists>pre post. xs @ [(k', v')] = pre @ (k, v) # post \<and> k \<notin> fst ` set post"
      then obtain pre post where e: "xs @ [(k', v')] = pre @ (k, v) # post" and n: "k \<notin> fst ` set post"
        by blast
      show "\<exists>pre post. xs = pre @ (k, v) # post \<and> k \<notin> fst ` set post"
      proof (cases post rule: rev_cases)
        case Nil
        with e False show ?thesis by simp
      next
        case (snoc post' y)
        with e have "xs = pre @ (k, v) # post'" by simp
        moreover have "k \<notin> fst ` set post'" using n snoc by simp
        ultimately show ?thesis by blast
      qed
    next
      assume "\<exists>pre post. xs = pre @ (k, v) # post \<and> k \<notin> fst ` set post"
      then obtain pre post where e: "xs = pre @ (k, v) # post" and n: "k \<notin> fst ` set post"
        by blast
      then have "xs @ [(k', v')] = pre @ (k, v) # (post @ [(k', v')]) \<and> k \<notin> fst ` set (post @ [(k', v')])"
        using False by simp
      then show "\<exists>pre post. xs @ [(k', v')] = pre @ (k, v) # post \<and> k \<notin> fst ` set post"
        by blast
    qed
    then show ?thesis
      using x False snoc.IH by simp
  qed
qed

lemma map_split_at:
  "map f xs = pre' @ y # post' \<Longrightarrow>
   \<exists>pre x post. xs = pre @ x # post \<and> f x = y \<and> map f post = post'"
proof (induction pre' arbitrary: xs)
  case Nil
  then obtain x post where "xs = x # post" "f x = y" "map f post = post'"
    by (cases xs) auto
  then have "xs = [] @ x # post \<and> f x = y \<and> map f post = post'"
    by simp
  then show ?case
    by blast
next
  case (Cons p ps)
  then obtain x xs' where xs: "xs = x # xs'" and rest: "map f xs' = ps @ y # post'"
    by (cases xs) auto
  from Cons.IH [OF rest] obtain pre z post where "xs' = pre @ z # post" "f z = y" "map f post = post'"
    by blast
  then have "xs = (x # pre) @ z # post \<and> f z = y \<and> map f post = post'"
    using xs by simp
  then show ?case
    by blast
qed

lemma env_lookup:
  assumes all: "\<forall>item \<in> set items. CHR ''='' \<in> set item"
  shows "map_of (rev (map (\<lambda>item. (entry_key item, entry_value item)) items)) k = Some v \<longleftrightarrow>
         (\<exists>pre post. items = pre @ (k @ ''='' @ v) # post \<and> CHR ''='' \<notin> set k
                      \<and> (\<forall>i \<in> set post. entry_key i \<noteq> k))"
    (is "?L \<longleftrightarrow> ?R")
proof
  let ?kv = "\<lambda>item. (entry_key item, entry_value item)"
  assume ?L
  then obtain pre' post' where e: "map ?kv items = pre' @ (k, v) # post'" and n: "k \<notin> fst ` set post'"
    unfolding map_of_rev_last by blast
  from map_split_at [OF e] obtain pre item post
    where i: "items = pre @ item # post" and kv: "?kv item = (k, v)" and p: "map ?kv post = post'"
    by blast
  have "item \<in> set items"
    using i by simp
  then have eq: "CHR ''='' \<in> set item"
    using all by blast
  have key: "entry_key item = k" and val: "entry_value item = v"
    using kv by simp_all
  have item: "item = k @ ''='' @ v"
    using entry_parts(1) [OF eq] key val by simp
  have nk: "CHR ''='' \<notin> set k"
    using entry_parts(2) [OF eq] key by simp
  have "\<forall>i \<in> set post. entry_key i \<noteq> k"
  proof
    fix i
    assume "i \<in> set post"
    then have "entry_key i \<in> fst ` set post'"
      unfolding p [symmetric] by force
    then show "entry_key i \<noteq> k"
      using n by blast
  qed
  then show ?R
    using i item nk by blast
next
  let ?kv = "\<lambda>item. (entry_key item, entry_value item)"
  assume ?R
  then obtain pre post where i: "items = pre @ (k @ ''='' @ v) # post" and nk: "CHR ''='' \<notin> set k"
    and later: "\<forall>i \<in> set post. entry_key i \<noteq> k"
    by blast
  have kv: "?kv (k @ ''='' @ v) = (k, v)"
    using entry_key_append [OF nk] entry_value_append [OF nk] by simp
  have e: "map ?kv items = map ?kv pre @ (k, v) # map ?kv post"
    unfolding i using kv by simp
  have n: "k \<notin> fst ` set (map ?kv post)"
    using later by force
  show ?L
    unfolding map_of_rev_last using e n by blast
qed

lemma get_or_list: "get_or (\<lambda>xs. xs \<noteq> []) m [] = (case m of Value xs \<Rightarrow> xs | _ \<Rightarrow> [])"
  by (cases m) auto

lemma get_or_dict:
  "get_or (\<lambda>d. d \<noteq> Map.empty) m Map.empty = (case m of Value d \<Rightarrow> d | _ \<Rightarrow> Map.empty)"
  by (cases m) auto

lemma init_config_result:
  assumes fresh: "snapshot c = None"
    and ok: "fst (tool tr [''buildah'', ''inspect'', ''--type'', ''container'', c_id c]) = 0"
    and info: "loads_info (snd (tool tr [''buildah'', ''inspect'', ''--type'', ''container'', c_id c])) = Inr info"
    and cfg: "config_of loads_config info = Inr cfg"
    and env: "\<forall>items. Env cfg = Value items \<longrightarrow> (\<forall>item \<in> set items. CHR ''='' \<in> set item)"
  shows "init_config tool it loads_info loads_config c tr =
     (Inr (),
      snapshot_config
        (c\<lparr>environ := map_of (rev (map (\<lambda>item. (entry_key item, entry_value item))
                                      (case Env cfg of Value xs \<Rightarrow> xs | _ \<Rightarrow> []))),
            command := (case Cmd cfg of Value xs \<Rightarrow> xs | _ \<Rightarrow> []),
            entrypoint := (case Entrypoint cfg of Value xs \<Rightarrow> xs | _ \<Rightarrow> []),
            labels := (case Labels cfg of Value d \<Rightarrow> d | _ \<Rightarrow> Map.empty),
            volumes := (case Volumes cfg of Value d \<Rightarrow> dom d | _ \<Rightarrow> {}),
            workdir := (case WorkingDir cfg of Value s \<Rightarrow> s | _ \<Rightarrow> [])\<rparr>),
      tr @ [[''buildah'', ''inspect'', ''--type'', ''container'', c_id c]])"
proof -
  let ?argv = "[''buildah'', ''inspect'', ''--type'', ''container'', c_id c]"
  let ?items = "case Env cfg of Value xs \<Rightarrow> xs | _ \<Rightarrow> []"
  have commit: "commit_config tool it c tr = (Inr (), c, tr)"
    using fresh by (simp add: commit_config_def)
  have out: "buildah_out tool [''inspect'', ''--type'', ''container'', c_id c] tr =
      (Inr (snd (tool tr ?argv)), tr @ [?argv])"
    using ok by (simp add: buildah_out_def Let_def)
  have insp: "inspect tool it loads_info c tr = (Inr info, c, tr @ [?argv])"
    unfolding inspect_def commit by (simp add: out info)
  have all: "\<forall>item \<in> set ?items. CHR ''='' \<in> set item"
    using env by (cases "Env cfg") simp_all
  have d: "dict_of (map (split1 CHR ''='') ?items) Map.empty =
      Inr (map_of (rev (map (\<lambda>item. (entry_key item, entry_value item)) ?items)))"
    using dict_of_entries [OF all, of Map.empty] by simp
  have vol: "(case Volumes cfg of Value m \<Rightarrow> if m \<noteq> Map.empty then dom m else {} | _ \<Rightarrow> {}) =
      (case Volumes cfg of Value d \<Rightarrow> dom d | _ \<Rightarrow> {})"
    by (cases "Volumes cfg") auto
  have wd: "get_or (\<lambda>s. s \<noteq> []) (WorkingDir cfg) [] = (case WorkingDir cfg of Value s \<Rightarrow> s | _ \<Rightarrow> [])"
    by (rule get_or_list)
  show ?thesis
    unfolding init_config_def insp
    by (simp add: cfg get_or_list get_or_dict d vol)
qed

text \<open>
  Claim C9. On a new container object, when the \<open>inspect\<close> command succeeds and its
  output parses to a configuration payload whose environment entries all have the form
  \<open>KEY=VALUE\<close>, \<open>_init_config\<close> returns normally, having run that one command, and
  the live fields reproduce the payload: the environment maps each key to the value of
  its last entry; command, entrypoint, labels and working directory are the members
  \<open>Cmd\<close>, \<open>Entrypoint\<close>, \<open>Labels\<close> and \<open>WorkingDir\<close>; the volumes are the keys of
  \<open>Volumes\<close>. A member that is absent or \<open>null\<close> gives the empty mapping, sequence,
  string or set, not a failure. The snapshot taken at the end holds exactly these
  values, and no earlier snapshot.
\<close>

theorem init_config_round_trip:
  assumes fresh: "snapshot c = None"
    and ok: "fst (tool tr [''buildah'', ''inspect'', ''--type'', ''container'', c_id c]) = 0"
    and info: "loads_info (snd (tool tr [''buildah'', ''inspect'', ''--type'', ''container'', c_id c])) = Inr info"
    and cfg: "config_of loads_config info = Inr cfg"
    and env: "\<forall>items. Env cfg = Value items \<longrightarrow> (\<forall>item \<in> set items. CHR ''='' \<in> set item)"
  shows "\<exists>c'. init_config tool it loads_info loads_config c tr =
               (Inr (), c', tr @ [[''buildah'', ''inspect'', ''--type'', ''container'', c_id c]])
      \<and> c_id c' = c_id c
      \<and> (\<forall>items. Env cfg = Value items \<longrightarrow>
            (\<forall>k v. environ c' k = Some v \<longleftrightarrow>
               (\<exists>pre post. items = pre @ (k @ ''='' @ v) # post \<and> CHR ''='' \<notin> set k
                            \<and> (\<forall>i \<in> set post. entry_key i \<noteq> k))))
      \<and> (Env cfg = Absent \<or> Env cfg = Null \<longrightarrow> environ c' = Map.empty)
      \<and> (\<forall>xs. Cmd cfg = Value xs \<longrightarrow> command c' = xs)
      \<and> (Cmd cfg = Absent \<or> Cmd cfg = Null \<longrightarrow> command c' = [])
      \<and> (\<forall>xs. Entrypoint cfg = Value xs \<longrightarrow> entrypoint c' = xs)
      \<and> (Entrypoint cfg = Absent \<or> Entrypoint cfg = Null \<longrightarrow> entrypoint c' = [])
      \<and> (\<forall>d. Labels cfg = Value d \<longrightarrow> labels c' = d)
      \<and> (Labels cfg = Absent \<or> Labels cfg = Null \<longrightarrow> labels c' = Map.empty)
      \<and> (\<forall>d. Volumes cfg = Value d \<longrightarrow> volumes c' = dom d)
      \<and> (Volumes cfg = Absent \<or> Volumes cfg = Null \<longrightarrow> volumes c' = {})
      \<and> (\<forall>s. WorkingDir cfg = Value s \<longrightarrow> workdir c' = s)
      \<and> (WorkingDir cfg = Absent \<or> WorkingDir cfg = Null \<longrightarrow> workdir c' = [])
      \<and> snapshot c' = Some (Snapshot (c_id c') (environ c') (command c') (entrypoint c')
                                     (labels c') (volumes c') (workdir c') None)"
proof -
  define c' where "c' = snapshot_config
        (c\<lparr>environ := map_of (rev (map (\<lambda>item. (entry_key item, entry_value item))
                                      (case Env cfg of Value xs \<Rightarrow> xs | _ \<Rightarrow> []))),
            command := (case Cmd cfg of Value xs \<Rightarrow> xs | _ \<Rightarrow> []),
            entrypoint := (case Entrypoint cfg of Value xs \<Rightarrow> xs | _ \<Rightarrow> []),
            labels := (case Labels cfg of Value d \<Rightarrow> d | _ \<Rightarrow> Map.empty),
            volumes := (case Volumes cfg of Value d \<Rightarrow> dom d | _ \<Rightarrow> {}),
            workdir := (case WorkingDir cfg of Value s \<Rightarrow> s | _ \<Rightarrow> [])\<rparr>)"
  have r: "init_config tool it loads_info loads_config c tr =
               (Inr (), c', tr @ [[''buildah'', ''inspect'', ''--type'', ''container'', c_id c]])"
    unfolding c'_def using assms by (rule init_config_result)
  have i: "c_id c' = c_id c"
    by (simp add: c'_def snapshot_config_def)
  have e1: "\<forall>items. Env cfg = Value items \<longrightarrow>
            (\<forall>k v. environ c' k = Some v \<longleftrightarrow>
               (\<exists>pre post. items = pre @ (k @ ''='' @ v) # post \<and> CHR ''='' \<notin> set k
                            \<and> (\<forall>i \<in> set post. entry_key i \<noteq> k)))"
  proof (intro allI impI)
    fix items k v
    assume v: "Env cfg = Value items"
    then have all: "\<forall>item \<in> set items. CHR ''='' \<in> set item"
      using env by blast
    have "environ c' = map_of (rev (map (\<lambda>item. (entry_key item, entry_value item)) items))"
      by (simp add: c'_def snapshot_config_def v)
    then show "environ c' k = Some v \<longleftrightarrow>
               (\<exists>pre post. items = pre @ (k @ ''='' @ v) # post \<and> CHR ''='' \<notin> set k
                            \<and> (\<forall>i \<in> set post. entry_key i \<noteq> k))"
      using env_lookup [OF all, of k v] by simp
  qed
  have e2: "Env cfg = Absent \<or> Env cfg = Null \<longrightarrow> environ c' = Map.empty"
    by (auto simp: c'_def snapshot_config_def)
  have m1: "\<forall>xs. Cmd cfg = Value xs \<longrightarrow> command c' = xs"
    by (simp add: c'_def snapshot_config_def)
  have m2: "Cmd cfg = Absent \<or> Cmd cfg = Null \<longrightarrow> command c' = []"
    by (auto simp: c'_def snapshot_config_def)
  have p1: "\<forall>xs. Entrypoint cfg = Value xs \<longrightarrow> entrypoint c' = xs"
    by (simp add: c'_def snapshot_config_def)
  have p2: "Entrypoint cfg = Absent \<or> Entrypoint cfg = Null \<longrightarrow> entrypoint c' = []"
    by (auto simp: c'_def snapshot_config_def)
  have l1: "\<forall>d. Labels cfg = Value d \<longrightarrow> labels c' = d"
    by (simp add: c'_def snapshot_config_def)
  have l2: "Labels cfg = Absent \<or> Labels cfg = Null \<longrightarrow> labels c' = Map.empty"
    by (auto simp: c'_def snapshot_config_def)
  have v1: "\<forall>d. Volumes cfg = Value d \<longrightarrow> volumes c' = dom d"
    by (simp add: c'_def snapshot_config_def)
  have v2: "Volumes cfg = Absent \<or> Volumes cfg = Null \<longrightarrow> volumes c' = {}"
    by (auto simp: c'_def snapshot_config_def)
  have w1: "\<forall>s. WorkingDir cfg = Value s \<longrightarrow> workdir c' = s"
    by (simp add: c'_def snapshot_config_def)
  have w2: "WorkingDir cfg = Absent \<or> WorkingDir cfg = Null \<longrightarrow> workdir c' = []"
    by (auto simp: c'_def snapshot_config_def)
  have s: "snapshot c' = Some (Snapshot (c_id c') (environ c') (command c') (entrypoint c')
                                     (labels c') (volumes c') (workdir c') None)"
    by (simp add: c'_def snapshot_config_def fresh)
  from r i e1 e2 m1 m2 p1 p2 l1 l2 v1 v2 w1 w2 s show ?thesis
    by (intro exI [of _ c'] conjI)
qed

theorem init_config_round_trip_witness:
  "\<exists>c'. init_config (\<lambda>tr argv. (0, ''{}'')) sorted_list_of_set
            (\<lambda>s. Inr \<lparr>Config = Value ''cfg''\<rparr>)
            (\<lambda>s. Inr \<lparr>config = Value
                     \<lparr>Env = Value [''PATH=/bin''], Cmd = Value [''sh''], Entrypoint = Null,
                      Labels = Absent, Volumes = Value [''/data'' \<mapsto> ()],
                      WorkingDir = Value ''/srv''\<rparr>\<rparr>)
            (new_container ''ctr'') []
          = (Inr (), c', [[''buildah'', ''inspect'', ''--type'', ''container'', ''ctr'']])
      \<and> command c' = [''sh''] \<and> entrypoint c' = [] \<and> labels c' = Map.empty
      \<and> volumes c' = {''/data''} \<and> workdir c' = ''/srv''
      \<and> snapshot c' = Some (Snapshot (c_id c') (environ c') (command c') (entrypoint c')
                                     (labels c') (volumes c') (workdir c') None)"
proof -
  let ?tool = "\<lambda>(tr :: trace) (argv :: string list). (0 :: int, ''{}'')"
  let ?cfg = "\<lparr>Env = Value [''PATH=/bin''], Cmd = Value [''sh''], Entrypoint = Null,
                Labels = Absent, Volumes = Value [''/data'' \<mapsto> ()],
                WorkingDir = Value ''/srv''\<rparr>"
  let ?li = "\<lambda>s :: string. (Inr \<lparr>Config = Value ''cfg''\<rparr> :: error + inspect_info)"
  let ?lc = "\<lambda>s :: string. (Inr \<lparr>config = Value ?cfg\<rparr> :: error + kinda_config)"
  let ?c = "new_container ''ctr''"
  have fresh: "snapshot ?c = None"
    by (simp add: new_container_def)
  have ok: "fst (?tool [] [''buildah'', ''inspect'', ''--type'', ''container'', c_id ?c]) = 0"
    by simp
  have info: "?li (snd (?tool [] [''buildah'', ''inspect'', ''--type'', ''container'', c_id ?c])) =
      Inr \<lparr>Config = Value ''cfg''\<rparr>"
    by simp
  have cfg: "config_of ?lc \<lparr>Config = Value ''cfg''\<rparr> = Inr ?cfg"
    by (simp add: config_of_def)
  have env: "\<forall>items. Env ?cfg = Value items \<longrightarrow> (\<forall>item \<in> set items. CHR ''='' \<in> set item)"
    by simp
  have id: "c_id ?c = ''ctr''"
    by (simp add: new_container_def)
  from init_config_round_trip [where tool = ?tool and tr = "[]" and c = ?c and loads_info = ?li
      and loads_config = ?lc and info = "\<lparr>Config = Value ''cfg''\<rparr>" and cfg = ?cfg
      and it = sorted_list_of_set, OF fresh ok info cfg env]
  show ?thesis
    apply (elim exE conjE)
    subgoal for c'
      apply (rule exI [of _ c'])
      apply (simp add: id)
      done
    done
qed

text \<open>
  Claim C10. An environment entry is split at its first \<open>=\<close> only: for a key \<open>k\<close>
  without \<open>=\<close> and any value \<open>v\<close>, whatever \<open>=\<close> characters \<open>v\<close> holds, the entry
  \<open>k=v\<close> splits into \<open>k\<close> and \<open>v\<close>, and after \<open>_init_config\<close> the environment maps
  \<open>k\<close> to the whole of \<open>v\<close> (the entry being the last one of its key).
\<close>

theorem env_value_keeps_equals_signs:
  assumes fresh: "snapshot c = None"
    and ok: "fst (tool tr [''buildah'', ''inspect'', ''--type'', ''container'', c_id c]) = 0"
    and info: "loads_info (snd (tool tr [''buildah'', ''inspect'', ''--type'', ''container'', c_id c])) = Inr info"
    and cfg: "config_of loads_config info = Inr cfg"
    and env: "\<forall>items. Env cfg = Value items \<longrightarrow> (\<forall>item \<in> set items. CHR ''='' \<in> set item)"
    and entry: "Env cfg = Value (pre @ (k @ ''='' @ v) # post)"
    and key: "CHR ''='' \<notin> set k"
    and last: "\<forall>i \<in> set post. entry_key i \<noteq> k"
  shows "split1 CHR ''='' (k @ ''='' @ v) = [k, v]
       \<and> environ (fst (snd (init_config tool it loads_info loads_config c tr))) k = Some v"
proof -
  let ?items = "pre @ (k @ ''='' @ v) # post"
  have all: "\<forall>item \<in> set ?items. CHR ''='' \<in> set item"
    using env entry by blast
  have "environ (fst (snd (init_config tool it loads_info loads_config c tr))) =
      map_of (rev (map (\<lambda>item. (entry_key item, entry_value item)) ?items))"
    unfolding init_config_result [where tool = tool and tr = tr and c = c
        and loads_info = loads_info and loads_config = loads_config and info = info
        and cfg = cfg, OF fresh ok info cfg env]
    by (simp add: snapshot_config_def entry)
  moreover have "map_of (rev (map (\<lambda>item. (entry_key item, entry_value item)) ?items)) k = Some v"
    unfolding env_lookup [OF all] using key last by blast
  ultimately show ?thesis
    using split1_entry [OF key] by simp
qed

theorem env_value_keeps_equals_signs_witness:
  "split1 CHR ''='' (''OPTS'' @ ''='' @ ''a=b=c'') = [''OPTS'', ''a=b=c'']
   \<and> environ (fst (snd (init_config (\<lambda>tr argv. (0, ''{}'')) sorted_list_of_set
            (\<lambda>s. Inr \<lparr>Config = Value ''cfg''\<rparr>)
            (\<lambda>s. Inr \<lparr>config = Value
                     \<lparr>Env = Value ([] @ (''OPTS'' @ ''='' @ ''a=b=c'') # [''PATH=/bin'']),
                      Cmd = Absent, Entrypoint = Absent, Labels = Absent, Volumes = Absent,
                      WorkingDir = Absent\<rparr>\<rparr>)
            (new_container ''ctr'') []))) ''OPTS'' = Some ''a=b=c''"
proof -
  let ?tool = "\<lambda>(tr :: trace) (argv :: string list). (0 :: int, ''{}'')"
  let ?cfg = "\<lparr>Env = Value ([] @ (''OPTS'' @ ''='' @ ''a=b=c'') # [''PATH=/bin'']),
                Cmd = Absent, Entrypoint = Absent, Labels = Absent, Volumes = Absent,
                WorkingDir = Absent\<rparr>"
  let ?li = "\<lambda>s :: string. (Inr \<lparr>Config = Value ''cfg''\<rparr> :: error + inspect_info)"
  let ?lc = "\<lambda>s :: string. (Inr \<lparr>config = Value ?cfg\<rparr> :: error + kinda_config)"
  let ?c = "new_container ''ctr''"
  have fresh: "snapshot ?c = None"
    by (simp add: new_container_def)
  have ok: "fst (?tool [] [''buildah'', ''inspect'', ''--type'', ''container'', c_id ?c]) = 0"
    by simp
  have info: "?li (snd (?tool [] [''buildah'', ''inspect'', ''--type'', ''container'', c_id ?c])) =
      Inr \<lparr>Config = Value ''cfg''\<rparr>"
    by simp
  have cfg: "config_of ?lc \<lparr>Config = Value ''cfg''\<rparr> = Inr ?cfg"
    by (simp add: config_of_def)
  have env: "\<forall>items. Env ?cfg = Value items \<longrightarrow> (\<forall>item \<in> set items. CHR ''='' \<in> set item)"
    by simp
  have entry: "Env ?cfg = Value ([] @ (''OPTS'' @ ''='' @ ''a=b=c'') # [''PATH=/bin''])"
    by simp
  have key: "CHR ''='' \<notin> set ''OPTS''"
    by simp
  have last: "\<forall>i \<in> set [''PATH=/bin'']. entry_key i \<noteq> ''OPTS''"
    by (simp add: entry_key_def)
  show ?thesis
    by (rule env_value_keeps_equals_signs [where tool = ?tool and tr = "[]" and c = ?c
          and loads_info = ?li and loads_config = ?lc and info = "\<lparr>Config = Value ''cfg''\<rparr>"
          and cfg = ?cfg and it = sorted_list_of_set and pre = "[]" and k = "''OPTS''"
          and v = "''a=b=c''" and post = "[''PATH=/bin'']",
          OF fresh ok info cfg env entry key last])
qed

subsection \<open>The mount scope\<close>

lemma mount_normal_exit:
  assumes "fst (tool tr [''buildah'', ''mount'', c_id c]) = 0"
    and "body (strip (snd (tool tr [''buildah'', ''mount'', c_id c])))
           (tr @ [[''buildah'', ''mount'', c_id c]]) = (Inr r, tr2)"
  shows "snd (mount tool c body tr) = tr2 @ [[''buildah'', ''umount'', c_id c]]"
proof -
  have m: "buildah_out tool [''mount'', c_id c] tr =
      (Inr (snd (tool tr [''buildah'', ''mount'', c_id c])), tr @ [[''buildah'', ''mount'', c_id c]])"
    using assms(1) by (simp add: buildah_out_def Let_def)
  have u: "snd (buildah_out tool [''umount'', c_id c] tr2) = tr2 @ [[''buildah'', ''umount'', c_id c]]"
    by (simp add: buildah_out_def Let_def)
  show ?thesis
    unfolding mount_def m using assms(2) u
    by (cases "buildah_out tool [''umount'', c_id c] tr2") (auto simp: Let_def split: sum.splits)
qed

text \<open>
  Claim C6 says that \<open>umount\<close> is run on every way out of the scope, once \<open>mount\<close> has
  succeeded. The code does so when the body returns (\<open>mount_normal_exit\<close>). When the
  body raises, be it an error or the \<open>CancelledError\<close> of a cancellation, the scope
  raises the same exception and the trace is the one the body left: \<open>umount\<close> is not
  run.
\<close>

theorem mount_exception_skips_umount:
  assumes "fst (tool tr [''buildah'', ''mount'', c_id c]) = 0"
    and "body (strip (snd (tool tr [''buildah'', ''mount'', c_id c])))
           (tr @ [[''buildah'', ''mount'', c_id c]]) = (Inl e, tr2)"
  shows "mount tool c body tr = (Inl e, tr2)"
proof -
  have m: "buildah_out tool [''mount'', c_id c] tr =
      (Inr (snd (tool tr [''buildah'', ''mount'', c_id c])), tr @ [[''buildah'', ''mount'', c_id c]])"
    using assms(1) by (simp add: buildah_out_def Let_def)
  show ?thesis
    unfolding mount_def m using assms(2) by (simp add: Let_def)
qed

theorem mount_exception_skips_umount_witness:
  "mount (\<lambda>tr argv. (0, ''/mnt/root'')) (new_container ''ctr'')
     (\<lambda>path tr. (Inl CancelledError :: error + unit, tr)) []
   = (Inl CancelledError, [[''buildah'', ''mount'', ''ctr'']])
   \<and> [''buildah'', ''umount'', ''ctr''] \<notin> set (snd (mount (\<lambda>tr argv. (0, ''/mnt/root''))
        (new_container ''ctr'') (\<lambda>path tr. (Inl CancelledError :: error + unit, tr)) []))"
proof -
  let ?tool = "\<lambda>(tr :: trace) (argv :: string list). (0 :: int, ''/mnt/root'')"
  let ?body = "\<lambda>(path :: string) (tr :: trace). (Inl CancelledError :: error + unit, tr)"
  let ?c = "new_container ''ctr''"
  have ok: "fst (?tool [] [''buildah'', ''mount'', c_id ?c]) = 0"
    by simp
  have raised: "?body (strip (snd (?tool [] [''buildah'', ''mount'', c_id ?c])))
           ([] @ [[''buildah'', ''mount'', c_id ?c]]) = (Inl CancelledError, [[''buildah'', ''mount'', ''ctr'']])"
    by (simp add: new_container_def)
  from mount_exception_skips_umount [where tool = ?tool and tr = "[]" and c = ?c and body = ?body
      and e = CancelledError and ?tr2.0 = "[[''buildah'', ''mount'', ''ctr'']]", OF ok raised]
  show ?thesis
    by simp
qed

subsection \<open>Pulling and resolving images\<close>

lemma pull_failed_AttributeError:
  "pull_failed name exc =
     AttributeError ''module asyncio.subprocess has no attribute CalledProcessError''"
  by (simp add: pull_failed_def subprocess_getattr_def asyncio_subprocess_names_def)

text \<open>
  Claim C7 says that a pull whose command exits with a nonzero code raises
  \<open>ImageNotFoundError\<close>. In the code the \<open>except\<close> clause meant to do this names
  \<open>subprocess.CalledProcessError\<close>, an attribute the module bound to \<open>subprocess\<close> does
  not have: \<open>Image.pull\<close> raises \<open>AttributeError\<close>.
\<close>

theorem pull_failure_raises_AttributeError:
  assumes "fst (tool tr [''buildah'', ''pull'', name]) \<noteq> 0"
  shows "pull tool name tr =
           (Inl (AttributeError ''module asyncio.subprocess has no attribute CalledProcessError''),
            tr @ [[''buildah'', ''pull'', name]])"
  using assms by (simp add: pull_def buildah_out_def Let_def pull_failed_AttributeError)

theorem pull_failure_raises_AttributeError_witness:
  "pull (\<lambda>tr argv. (125, [])) ''nonexistent:tag'' [] =
     (Inl (AttributeError ''module asyncio.subprocess has no attribute CalledProcessError''),
      [[''buildah'', ''pull'', ''nonexistent:tag'']])
   \<and> fst (pull (\<lambda>tr argv. (125, [])) ''nonexistent:tag'' [])
       \<noteq> Inl (ImageNotFoundError ''Could not find image nonexistent:tag'')"
proof -
  let ?tool = "\<lambda>(tr :: trace) (argv :: string list). (125 :: int, [] :: string)"
  have fails: "fst (?tool [] [''buildah'', ''pull'', ''nonexistent:tag'']) \<noteq> 0"
    by simp
  from pull_failure_raises_AttributeError [where tool = ?tool and tr = "[]"
      and name = "''nonexistent:tag''", OF fails]
  show ?thesis
    by simp
qed

text \<open>
  Claim C8 says that \<open>_resolve\<close> returns an identifier that matches a local image id
  unchanged, without a pull. In the code \<open>_resolve\<close> iterates \<open>cls.list()\<close>, an
  asynchronous generator, with a plain generator expression: for every identifier, local
  or not, it raises \<open>TypeError\<close> before any command is run.
\<close>

theorem resolve_raises_TypeError:
  "resolve tool loads ident tr = (Inl (TypeError ''async_generator object is not iterable''), tr)"
  by (simp add: resolve_def list_images_def py_iter_def)

text \<open>The scenario of the specification: \<open>abc123\<close> is the id of a local image.\<close>

lemma resolve_local_image:
  "resolve (\<lambda>tr argv. (0, ''[]'')) (\<lambda>s. Inr [[''id'' \<mapsto> ''abc123'']]) ''abc123'' [] \<noteq>
     (Inr ''abc123'', [])"
  by (simp add: resolve_def list_images_def py_iter_def)

end
